theory Spec2Isabelle
  imports Complex_Main "HOL-Library.List_Lexorder" "HOL-Library.Char_ord"
begin

section \<open>Text primitives\<close>

text \<open>
  Python \<open>str\<close> values are modelled as \<open>string\<close>, a list of characters, each character
  one code point from 0 to 255; the model speaks about text of such code points. The
  character classes are those of Python's \<open>re\<close> module on \<open>str\<close> patterns and of
  \<open>str.strip\<close> in that range: \<open>\s\<close> and \<open>strip()\<close> take the code points 9-13, 28-32,
  133 and 160 for white space; \<open>\d\<close> is \<open>0-9\<close>; \<open>\w\<close> is a digit, a letter or the
  underscore, with the letters and numeric signs of the upper half: 170, 178, 179, 181,
  185, 186, 188-190, 192-214, 216-246 and 248-255.
\<close>

definition NL :: char where
  "NL = CHR 0x0A"

definition is_space :: "char \<Rightarrow> bool" where
  "is_space c = (let n = (of_char c :: nat) in
     (9 \<le> n \<and> n \<le> 13) \<or> (28 \<le> n \<and> n \<le> 32) \<or> n = 133 \<or> n = 160)"

definition is_digit :: "char \<Rightarrow> bool" where
  "is_digit c = (let n = (of_char c :: nat) in 48 \<le> n \<and> n \<le> 57)"

definition is_word :: "char \<Rightarrow> bool" where
  "is_word c = (let n = (of_char c :: nat) in
     (48 \<le> n \<and> n \<le> 57) \<or> (65 \<le> n \<and> n \<le> 90) \<or> n = 95 \<or> (97 \<le> n \<and> n \<le> 122)
     \<or> n = 170 \<or> n = 178 \<or> n = 179 \<or> n = 181 \<or> n = 185 \<or> n = 186
     \<or> (188 \<le> n \<and> n \<le> 190) \<or> (192 \<le> n \<and> n \<le> 214) \<or> (216 \<le> n \<and> n \<le> 246)
     \<or> (248 \<le> n \<and> n \<le> 255))"

text \<open>\<open>str.strip()\<close>: drop leading and trailing white space.\<close>

definition strip :: "string \<Rightarrow> string" where
  "strip s = rev (dropWhile is_space (rev (dropWhile is_space s)))"

text \<open>
  \<open>str.lower()\<close>: the capital letters, code points 65-90, 192-214 and 216-222, go to the
  small letters 32 places further; every other code point below 256 stays.
\<close>

definition lower_char :: "char \<Rightarrow> char" where
  "lower_char c = (let n = (of_char c :: nat) in
     if (65 \<le> n \<and> n \<le> 90) \<or> (192 \<le> n \<and> n \<le> 214) \<or> (216 \<le> n \<and> n \<le> 222)
     then char_of (n + 32) else c)"

definition lower :: "string \<Rightarrow> string" where
  "lower s = map lower_char s"

text \<open>\<open>str.startswith\<close>, \<open>str.endswith\<close> and the substring test \<open>sub in s\<close>.\<close>

definition startswith :: "string \<Rightarrow> string \<Rightarrow> bool" where
  "startswith s p = (take (length p) s = p)"

definition endswith :: "string \<Rightarrow> string \<Rightarrow> bool" where
  "endswith s p = (length p \<le> length s \<and> drop (length s - length p) s = p)"

fun contains :: "string \<Rightarrow> string \<Rightarrow> bool" where
  "contains [] sub = (sub = [])"
| "contains (c # cs) sub = (startswith (c # cs) sub \<or> contains cs sub)"

text \<open>\<open>sep.join(parts)\<close>.\<close>

fun join :: "string \<Rightarrow> string list \<Rightarrow> string" where
  "join sep [] = []"
| "join sep [p] = p"
| "join sep (p # q # ps) = p @ sep @ join sep (q # ps)"

text \<open>Decimal rendering of a natural number, as \<open>str(n)\<close> and \<open>f"{n}"\<close> print it.\<close>

fun show_nat :: "nat \<Rightarrow> string" where
  "show_nat n = (if n < 10 then [char_of (48 + n)] else show_nat (n div 10) @ [char_of (48 + n mod 10)])"

declare show_nat.simps [simp del]

section \<open>Extraction cleanup (\<open>pdf_to_txt_batch.clean_text\<close>)\<close>

text \<open>
  \<open>re.sub(r'\n{3,}', '\n\n', text)\<close>: the scan goes left to right; a maximal run of three
  or more newlines is replaced by two newlines, shorter runs are copied.
\<close>

function collapse_newlines :: "string \<Rightarrow> string" where
  "collapse_newlines [] = []"
| "collapse_newlines (c # cs) =
     (if c = NL then
        (let run = c # takeWhile (\<lambda>x. x = NL) cs;
             rest = dropWhile (\<lambda>x. x = NL) cs
         in (if 3 \<le> length run then [NL, NL] else run) @ collapse_newlines rest)
      else c # collapse_newlines cs)"
  by pat_completeness auto
termination
  by (relation "measure length") (auto simp: less_Suc_eq_le length_dropWhile_le)

text \<open>
  \<open>re.sub(r'\n\d+\s*\n', '\n', text)\<close>: at a newline followed by one or more digits and a
  white-space run that holds a newline, the match ends at the last newline of that run
  (\<open>\s*\<close> is greedy) and is replaced by one newline; the scan resumes after the match, so
  the newline that ends a match does not start the next one.
\<close>

definition after_last_nl :: "string \<Rightarrow> string" where
  "after_last_nl ws = rev (takeWhile (\<lambda>x. x \<noteq> NL) (rev ws))"

lemma length_after_last_nl: "length (after_last_nl ws) \<le> length ws"
  unfolding after_last_nl_def
  by (metis length_rev length_takeWhile_le)

lemma length_ws_rest:
  "length (after_last_nl (takeWhile P r1) @ dropWhile P r1) \<le> length r1"
proof -
  have "length (after_last_nl (takeWhile P r1)) \<le> length (takeWhile P r1)"
    by (rule length_after_last_nl)
  moreover have "length (takeWhile P r1) + length (dropWhile P r1) = length r1"
    by (metis length_append takeWhile_dropWhile_id)
  ultimately show ?thesis by simp
qed

function strip_page_numbers :: "string \<Rightarrow> string" where
  "strip_page_numbers [] = []"
| "strip_page_numbers (c # cs) =
     (if c = NL then
        (let ds = takeWhile is_digit cs;
             r1 = dropWhile is_digit cs;
             ws = takeWhile is_space r1;
             r2 = dropWhile is_space r1
         in if ds \<noteq> [] \<and> NL \<in> set ws
            then NL # strip_page_numbers (after_last_nl ws @ r2)
            else c # strip_page_numbers cs)
      else c # strip_page_numbers cs)"
  by pat_completeness auto

termination
proof (relation "measure length", goal_cases)
  case 1
  show ?case by simp
next
  case (2 c cs ds r1 ws r2)
  have "length (after_last_nl (takeWhile is_space r1) @ dropWhile is_space r1) \<le> length r1"
    by (rule length_ws_rest)
  moreover have "length r1 \<le> length cs"
    using 2 by (simp add: length_dropWhile_le)
  ultimately show ?case using 2 by simp
next
  case 3
  then show ?case by simp
next
  case 4
  then show ?case by simp
qed

text \<open>
  \<open>re.sub(r'(\w)-\n(\w)', r'\1\2', text)\<close>: a word character, a hyphen, a newline and a
  word character are replaced by the two word characters; the scan resumes after the
  second one.
\<close>

fun fix_hyphenation :: "string \<Rightarrow> string" where
  "fix_hyphenation (a # b # c # d # rest) =
     (if is_word a \<and> b = CHR ''-'' \<and> c = NL \<and> is_word d
      then a # d # fix_hyphenation rest
      else a # fix_hyphenation (b # c # d # rest))"
| "fix_hyphenation (a # rest) = a # fix_hyphenation rest"
| "fix_hyphenation [] = []"

definition clean_text :: "string \<Rightarrow> string" where
  "clean_text text = strip (fix_hyphenation (strip_page_numbers (collapse_newlines text)))"

section \<open>Exceptions\<close>

text \<open>
  A raised Python exception is a value. The first three constructors are the classes the
  Claude runner catches by type (\<open>anthropic.RateLimitError\<close>, \<open>anthropic.APIStatusError\<close>
  with its \<open>status_code\<close>, \<open>anthropic.APIConnectionError\<close>); \<open>Exception\<close> stands for any
  other exception class. Every constructor carries the text \<open>str(e)\<close>. The Gemini runner
  catches \<open>Exception\<close> and reads that text only; for it \<open>APIStatusError\<close> stands for an API
  error that carries an HTTP status, and \<open>APIConnectionError\<close> for a failure without any
  response.
\<close>

datatype exn =
    RateLimitError string
  | APIStatusError int string
  | APIConnectionError string
  | FileNotFoundError string
  | ValueError string
  | TypeError string
  | OverflowError string
  | Exception string

fun str_exn :: "exn \<Rightarrow> string" where
  "str_exn (RateLimitError m) = m"
| "str_exn (APIStatusError code m) = m"
| "str_exn (APIConnectionError m) = m"
| "str_exn (FileNotFoundError m) = m"
| "str_exn (ValueError m) = m"
| "str_exn (TypeError m) = m"
| "str_exn (OverflowError m) = m"
| "str_exn (Exception m) = m"

section \<open>PDF extraction and batching (\<open>pdf_to_txt_batch.py\<close>)\<close>

text \<open>
  A path below the input folder is the list of its components; \<open>Path.name\<close> is the last
  one. A folder is the list of the paths below it (at any depth) together with what
  \<open>fitz.open\<close> and \<open>page.get_text()\<close> give for each: the page texts, or the exception
  raised while reading.
\<close>

type_synonym path = "string list"

definition path_name :: "path \<Rightarrow> string" where
  "path_name p = (if p = [] then [] else last p)"

definition path_str :: "path \<Rightarrow> string" where
  "path_str p = join ''/'' p"

record folder =
  entries :: "path list"
  fitz_open :: "path \<Rightarrow> exn + string list"

text \<open>
  \<open>input_path.glob("*" + ext)\<close> yields the entries directly below the folder whose name ends
  with \<open>ext\<close>; \<open>input_path.glob("**/*" + ext)\<close> yields those at every depth, the top level
  included. Matching is the case-sensitive matching of a POSIX file system.
\<close>

definition glob_top :: "path list \<Rightarrow> string \<Rightarrow> path list" where
  "glob_top es ext = filter (\<lambda>p. length p = 1 \<and> endswith (path_name p) ext) es"

definition glob_rec :: "path list \<Rightarrow> string \<Rightarrow> path list" where
  "glob_rec es ext = filter (\<lambda>p. p \<noteq> [] \<and> endswith (path_name p) ext) es"

text \<open>The loop of \<open>process_folder\<close> that drops repeated paths, keeping the first.\<close>

fun unique_loop :: "path list \<Rightarrow> path set \<Rightarrow> path list \<Rightarrow> path list" where
  "unique_loop [] seen unique_pdfs = unique_pdfs"
| "unique_loop (p # ps) seen unique_pdfs =
     (if p \<notin> seen then unique_loop ps (insert p seen) (unique_pdfs @ [p])
      else unique_loop ps seen unique_pdfs)"

text \<open>
  Lines 84-116 of \<open>process_folder\<close>: the enumeration of the PDF files. \<open>sys.exit(1)\<close> is the
  result \<open>Inl 1\<close>. Python's \<open>sorted\<close> is stable, as \<open>sort_key\<close> is.
\<close>

definition find_pdfs :: "folder option \<Rightarrow> nat + path list" where
  "find_pdfs input_folder =
     (case input_folder of
        None \<Rightarrow> Inl 1
      | Some f \<Rightarrow>
          (let pdfs = glob_top (entries f) ''.pdf'' @ glob_top (entries f) ''.PDF''
                      @ glob_rec (entries f) ''.pdf'' @ glob_rec (entries f) ''.PDF'';
               unique_pdfs = unique_loop pdfs {} [];
               pdfs' = sort_key (\<lambda>x. lower (path_name x)) unique_pdfs
           in if pdfs' = [] then Inl 1 else Inr pdfs'))"

text \<open>\<open>extract_pdf_text\<close>: pages with non-blank text are tagged, joined and cleaned; any
  exception becomes the returned text.\<close>

fun text_parts :: "nat \<Rightarrow> string list \<Rightarrow> string list" where
  "text_parts page_num [] = []"
| "text_parts page_num (page_text # pages) =
     (if strip page_text \<noteq> []
      then (''[Page '' @ show_nat page_num @ '']'' @ [NL] @ page_text) # text_parts (page_num + 1) pages
      else text_parts (page_num + 1) pages)"

definition extract_pdf_text :: "folder \<Rightarrow> path \<Rightarrow> string" where
  "extract_pdf_text f pdf_path =
     (case fitz_open f pdf_path of
        Inr pages \<Rightarrow> clean_text (join [NL, NL] (text_parts 1 pages))
      | Inl e \<Rightarrow> ''ERROR extracting '' @ path_str pdf_path @ '': '' @ str_exn e)"

text \<open>
  The per-file part of \<open>process_folder\<close> (lines 126-157). Of the metadata only the fields
  the control flow and the manifest counts read are kept: the file name, the character
  count and the status. \<open>all_texts\<close> holds the index, the file name and the text of every
  file whose status is success.
\<close>

datatype status = Success | Error

record metadata =
  filename :: string
  chars :: nat
  status :: status

type_synonym paper = "nat \<times> string \<times> string"

definition record_extraction ::
  "nat \<Rightarrow> string \<Rightarrow> string \<Rightarrow> metadata list \<times> paper list \<Rightarrow> metadata list \<times> paper list" where
  "record_extraction i pdf_name text acc =
     (let (results, all_texts) = acc;
          md = \<lparr>filename = pdf_name, chars = length text, status = Success\<rparr>
      in if startswith text ''ERROR''
         then (results @ [md\<lparr>status := Error\<rparr>], all_texts)
         else (results @ [md], all_texts @ [(i, pdf_name, text)]))"

fun extract_loop ::
  "folder \<Rightarrow> nat \<Rightarrow> path list \<Rightarrow> metadata list \<times> paper list \<Rightarrow> metadata list \<times> paper list" where
  "extract_loop f i [] acc = acc"
| "extract_loop f i (pdf_path # pdfs) acc =
     extract_loop f (i + 1) pdfs
       (record_extraction i (path_name pdf_path) (extract_pdf_text f pdf_path) acc)"

text \<open>
  The batch loop (lines 163-210): \<open>for batch_start in range(0, len(all_texts), batch_size)\<close>
  with \<open>batch = all_texts[batch_start:batch_start + batch_size]\<close>. A batch records its
  number and the range \<open>batch_start + 1\<close> to \<open>batch_start + len(batch)\<close> that its header and
  file name print.
\<close>

record 'a batch =
  batch_num :: nat
  first_paper :: nat
  last_paper :: nat
  papers :: "'a list"

function batch_loop :: "nat \<Rightarrow> nat \<Rightarrow> nat \<Rightarrow> 'a list \<Rightarrow> 'a batch list" where
  "batch_loop num batch_start batch_size all_texts =
     (if 0 < batch_size \<and> batch_start < length all_texts then
        (let b = take batch_size (drop batch_start all_texts)
         in \<lparr>batch_num = num, first_paper = batch_start + 1,
              last_paper = batch_start + length b, papers = b\<rparr>
            # batch_loop (num + 1) (batch_start + batch_size) batch_size all_texts)
      else [])"
  by pat_completeness auto
termination
  by (relation "measure (\<lambda>(num, batch_start, batch_size, all_texts). length all_texts - batch_start)") auto

declare batch_loop.simps [simp del]

text \<open>\<open>range\<close> raises \<open>ValueError\<close> for a zero step and is empty for a negative one.\<close>

definition create_batches :: "int \<Rightarrow> 'a list \<Rightarrow> exn + 'a batch list" where
  "create_batches batch_size all_texts =
     (if batch_size = 0 then Inl (ValueError ''range() arg 3 must not be zero'')
      else if batch_size < 0 then Inr []
      else Inr (batch_loop 1 0 (nat batch_size) all_texts))"

definition process_folder ::
  "folder option \<Rightarrow> int \<Rightarrow> nat + (exn + metadata list \<times> paper batch list)" where
  "process_folder input_folder batch_size =
     (case input_folder of
        None \<Rightarrow> Inl 1
      | Some f \<Rightarrow>
          (case find_pdfs (Some f) of
             Inl code \<Rightarrow> Inl code
           | Inr pdfs \<Rightarrow>
               (let (results, all_texts) = extract_loop f 1 pdfs ([], [])
                in Inr (case create_batches batch_size all_texts of
                          Inl e \<Rightarrow> Inl e
                        | Inr batches \<Rightarrow> Inr (results, batches)))))"

section \<open>The transform runners (\<open>txt_to_md_claude.py\<close>, \<open>txt_to_md_gemini.py\<close>)\<close>

text \<open>
  An input file is its name and what \<open>read_text(encoding='utf-8')\<close> gives: the text, or the
  exception raised while reading or decoding. The input directory is the list of its
  entries, or \<open>None\<close> when the path does not exist.
\<close>

record txt_file =
  fname :: string
  read_text :: "exn + string"

text \<open>
  \<open>Path.stem\<close>: the name up to its last dot, when that dot is neither the first nor the
  last character of the name; the whole name otherwise.
\<close>

definition stem :: "string \<Rightarrow> string" where
  "stem name =
     (if CHR ''.'' \<in> set name then
        (let i = length name - 1 - length (takeWhile (\<lambda>c. c \<noteq> CHR ''.'') (rev name))
         in if 0 < i \<and> i < length name - 1 then take i name else name)
      else name)"

definition get_txt_files :: "txt_file list option \<Rightarrow> exn + txt_file list" where
  "get_txt_files input_dir =
     (case input_dir of
        None \<Rightarrow> Inl (FileNotFoundError ''Input directory not found'')
      | Some es \<Rightarrow> Inr (sort_key fname (filter (\<lambda>f. endswith (fname f) ''.txt'') es)))"

definition load_prompt_file :: "string option \<Rightarrow> exn + string" where
  "load_prompt_file prompt_file =
     (case prompt_file of
        None \<Rightarrow> Inl (FileNotFoundError ''Prompt file not found'')
      | Some raw \<Rightarrow>
          (let content = strip raw
           in if content = [] then Inl (ValueError ''Prompt file is empty'') else Inr content))"

text \<open>
  What a run does to its surroundings: the files of the output directory (name to
  content, \<open>write_text\<close> overwrites), the messages sent to the external service, in order,
  and the durations slept, in order. \<open>sleep_max\<close> is the longest duration that \<open>time.sleep\<close>
  accepts where the run takes place: CPython keeps a duration as a signed 64-bit count
  of nanoseconds, about 9.2e9 seconds, and the operating system accepts somewhat less or,
  on some platforms, far less. The external service is a function of the number of calls
  made before and of the message: it raises or returns. Creating the output directory,
  writing a file and printing are taken to succeed.
\<close>

record world =
  out_files :: "string \<rightharpoonup> string"
  calls :: "string list"
  sleeps :: "real list"
  sleep_max :: real

record results =
  processed :: nat
  failed :: nat
  skipped :: nat
  total_files :: nat

type_synonym 'r service = "nat \<Rightarrow> string \<Rightarrow> exn + 'r"

text \<open>
  \<open>time.sleep(secs)\<close> raises \<open>ValueError\<close> for a negative duration and, for one beyond
  the range of the platform, \<open>OverflowError\<close> (the range of CPython's own count) or
  \<open>OSError\<close> (the range of the operating system's call); both are caught as \<open>Exception\<close>
  by the runners, which have no handler of their own for either, and \<open>OverflowError\<close>
  stands for both here. Durations are real numbers; a float that is not a number is
  rejected by \<open>time.sleep\<close> as well and has no counterpart.
\<close>

definition time_sleep :: "real \<Rightarrow> world \<Rightarrow> exn + world" where
  "time_sleep secs w =
     (if secs < 0 then Inl (ValueError ''sleep length must be non-negative'')
      else if sleep_max w < secs then Inl (OverflowError ''timestamp out of range for platform time_t'')
      else Inr (w\<lparr>sleeps := sleeps w @ [secs]\<rparr>))"

definition full_message :: "string \<Rightarrow> string \<Rightarrow> string" where
  "full_message prompt file_content = prompt @ [NL, NL] @ ''---'' @ [NL, NL] @ file_content"

text \<open>
  \<open>process_file_with_claude\<close>: one call; the response text is the concatenation of the
  text of the content blocks of type \<open>text\<close>.
\<close>

datatype block = Block (block_type: string) (block_text: string)

definition process_file_with_claude ::
  "block list service \<Rightarrow> string \<Rightarrow> string \<Rightarrow> world \<Rightarrow> (exn + string) \<times> world" where
  "process_file_with_claude client file_content prompt w =
     (let msg = full_message prompt file_content;
          w' = w\<lparr>calls := calls w @ [msg]\<rparr>
      in case client (length (calls w)) msg of
           Inl e \<Rightarrow> (Inl e, w')
         | Inr content \<Rightarrow>
             (Inr (concat (map block_text (filter (\<lambda>b. block_type b = ''text'') content))), w'))"

text \<open>\<open>process_file_with_gemini\<close>: one call; \<open>response.text\<close> may be \<open>None\<close>.\<close>

definition process_file_with_gemini ::
  "string option service \<Rightarrow> string \<Rightarrow> string \<Rightarrow> world \<Rightarrow> (exn + string option) \<times> world" where
  "process_file_with_gemini client file_content prompt w =
     (let msg = full_message prompt file_content;
          w' = w\<lparr>calls := calls w @ [msg]\<rparr>
      in case client (length (calls w)) msg of
           Inl e \<Rightarrow> (Inl e, w')
         | Inr text \<Rightarrow> (Inr text, w'))"

text \<open>
  The retry loop \<open>for attempt in range(max_retries)\<close> of the Claude runner (lines 180-220).
  The result is \<open>Inl e\<close> when an exception leaves the loop, and \<open>Inr (response, last_error)\<close>
  when the loop ends by \<open>break\<close> or by running out of attempts. An exception raised by
  \<open>time.sleep\<close> inside a handler leaves the loop as well.
\<close>

fun claude_retry_loop ::
  "block list service \<Rightarrow> string \<Rightarrow> string \<Rightarrow> real \<Rightarrow> int \<Rightarrow> int list \<Rightarrow> exn option \<Rightarrow> world
     \<Rightarrow> (exn + string option \<times> exn option) \<times> world" where
  "claude_retry_loop client file_content prompt rate_limit_delay max_retries [] last_error w =
     (Inr (None, last_error), w)"
| "claude_retry_loop client file_content prompt rate_limit_delay max_retries (attempt # rest) last_error w =
     (case process_file_with_claude client file_content prompt w of
        (Inr response, w1) \<Rightarrow> (Inr (Some response, last_error), w1)
      | (Inl e, w1) \<Rightarrow>
          (case e of
             RateLimitError m \<Rightarrow>
               (if attempt < max_retries - 1 then
                  (case time_sleep (rate_limit_delay * of_int (attempt + 1)) w1 of
                     Inl e' \<Rightarrow> (Inl e', w1)
                   | Inr w2 \<Rightarrow>
                       claude_retry_loop client file_content prompt rate_limit_delay max_retries
                         rest (Some e) w2)
                else (Inl e, w1))
           | APIStatusError status_code m \<Rightarrow>
               (if status_code = 529 then
                  (if attempt < max_retries - 1 then
                     (case time_sleep (rate_limit_delay * of_int (attempt + 1)) w1 of
                        Inl e' \<Rightarrow> (Inl e', w1)
                      | Inr w2 \<Rightarrow>
                          claude_retry_loop client file_content prompt rate_limit_delay max_retries
                            rest (Some e) w2)
                   else (Inl e, w1))
                else (Inl e, w1))
           | APIConnectionError m \<Rightarrow>
               (if attempt < max_retries - 1 then
                  (case time_sleep (10 * of_int (attempt + 1)) w1 of
                     Inl e' \<Rightarrow> (Inl e', w1)
                   | Inr w2 \<Rightarrow>
                       claude_retry_loop client file_content prompt rate_limit_delay max_retries
                         rest (Some e) w2)
                else (Inl e, w1))
           | _ \<Rightarrow> (Inl e, w1)))"

text \<open>
  The Gemini runner decides by the text of the exception (lines 165-178): a failure is
  taken for a rate limit when \<open>str(e)\<close> contains \<open>429\<close> or, in lower case, \<open>quota\<close>, \<open>rate\<close>
  or \<open>resource\<close>.
\<close>

definition is_rate_limit :: "exn \<Rightarrow> bool" where
  "is_rate_limit e =
     (let error_msg = lower (str_exn e)
      in contains (str_exn e) ''429'' \<or> contains error_msg ''quota''
         \<or> contains error_msg ''rate'' \<or> contains error_msg ''resource'')"

fun gemini_retry_loop ::
  "string option service \<Rightarrow> string \<Rightarrow> string \<Rightarrow> real \<Rightarrow> int \<Rightarrow> int list \<Rightarrow> exn option \<Rightarrow> world
     \<Rightarrow> (exn + string option \<times> exn option) \<times> world" where
  "gemini_retry_loop client file_content prompt rate_limit_delay max_retries [] last_error w =
     (Inr (None, last_error), w)"
| "gemini_retry_loop client file_content prompt rate_limit_delay max_retries (attempt # rest) last_error w =
     (case process_file_with_gemini client file_content prompt w of
        (Inr response, w1) \<Rightarrow> (Inr (response, last_error), w1)
      | (Inl e, w1) \<Rightarrow>
          (if is_rate_limit e then
             (if attempt < max_retries - 1 then
                (case time_sleep (rate_limit_delay * of_int (attempt + 1)) w1 of
                   Inl e' \<Rightarrow> (Inl e', w1)
                 | Inr w2 \<Rightarrow>
                     gemini_retry_loop client file_content prompt rate_limit_delay max_retries
                       rest (Some e) w2)
              else (Inl e, w1))
           else (Inl e, w1)))"

text \<open>
  The rest of the loop body, the same in both runners (Claude lines 222-245, Gemini lines
  180-194): \<open>raise last_error\<close> when there is no response (raising \<open>None\<close> is a \<open>TypeError\<close>),
  else the output file is written, \<open>processed\<close> is incremented and, unless the file is the
  last one, the run sleeps for \<open>delay\<close>. All of it stands inside the \<open>try\<close> whose handlers
  increment \<open>failed\<close>, whatever the exception.
\<close>

definition finish_file ::
  "real \<Rightarrow> nat \<Rightarrow> nat \<Rightarrow> string \<Rightarrow> results \<Rightarrow> (exn + string option \<times> exn option) \<times> world
     \<Rightarrow> results \<times> world" where
  "finish_file delay i n output_filename res outcome =
     (case outcome of
        (Inl e, w1) \<Rightarrow> (res\<lparr>failed := failed res + 1\<rparr>, w1)
      | (Inr (None, last_error), w1) \<Rightarrow> (res\<lparr>failed := failed res + 1\<rparr>, w1)
      | (Inr (Some response, last_error), w1) \<Rightarrow>
          (let w2 = w1\<lparr>out_files := (out_files w1)(output_filename \<mapsto> response)\<rparr>;
               res1 = res\<lparr>processed := processed res + 1\<rparr>
           in if i < n then
                (case time_sleep delay w2 of
                   Inl e \<Rightarrow> (res1\<lparr>failed := failed res1 + 1\<rparr>, w2)
                 | Inr w3 \<Rightarrow> (res1, w3))
              else (res1, w2)))"

text \<open>One iteration of \<open>for i, txt_file in enumerate(txt_files, 1)\<close>.\<close>

definition claude_process_file ::
  "block list service \<Rightarrow> string \<Rightarrow> real \<Rightarrow> real \<Rightarrow> int \<Rightarrow> nat \<Rightarrow> nat \<Rightarrow> txt_file
     \<Rightarrow> results \<times> world \<Rightarrow> results \<times> world" where
  "claude_process_file client prompt delay rate_limit_delay max_retries i n txt_file s =
     (case read_text txt_file of
        Inl e \<Rightarrow> ((fst s)\<lparr>failed := failed (fst s) + 1\<rparr>, snd s)
      | Inr file_content \<Rightarrow>
          if strip file_content = [] then ((fst s)\<lparr>skipped := skipped (fst s) + 1\<rparr>, snd s)
          else finish_file delay i n (stem (fname txt_file) @ ''.md'') (fst s)
                 (claude_retry_loop client file_content prompt rate_limit_delay max_retries
                    [0..max_retries - 1] None (snd s)))"

definition gemini_process_file ::
  "string option service \<Rightarrow> string \<Rightarrow> real \<Rightarrow> real \<Rightarrow> int \<Rightarrow> nat \<Rightarrow> nat \<Rightarrow> txt_file
     \<Rightarrow> results \<times> world \<Rightarrow> results \<times> world" where
  "gemini_process_file client prompt delay rate_limit_delay max_retries i n txt_file s =
     (case read_text txt_file of
        Inl e \<Rightarrow> ((fst s)\<lparr>failed := failed (fst s) + 1\<rparr>, snd s)
      | Inr file_content \<Rightarrow>
          if strip file_content = [] then ((fst s)\<lparr>skipped := skipped (fst s) + 1\<rparr>, snd s)
          else finish_file delay i n (stem (fname txt_file) @ ''.md'') (fst s)
                 (gemini_retry_loop client file_content prompt rate_limit_delay max_retries
                    [0..max_retries - 1] None (snd s)))"

text \<open>The loop over the files; \<open>step\<close> is one runner's iteration.\<close>

fun files_loop ::
  "(nat \<Rightarrow> nat \<Rightarrow> txt_file \<Rightarrow> results \<times> world \<Rightarrow> results \<times> world) \<Rightarrow> nat \<Rightarrow> nat \<Rightarrow> txt_file list
     \<Rightarrow> results \<times> world \<Rightarrow> results \<times> world" where
  "files_loop step i n [] s = s"
| "files_loop step i n (txt_file # rest) s = files_loop step (i + 1) n rest (step i n txt_file s)"

text \<open>
  \<open>process_all_files\<close>: \<open>FileNotFoundError\<close> of \<open>get_txt_files\<close> leaves the function; with no
  file the counters are all zero; else the loop runs from counters zero and
  \<open>total = len(txt_files)\<close>.
\<close>

definition run_all_files ::
  "(nat \<Rightarrow> nat \<Rightarrow> txt_file \<Rightarrow> results \<times> world \<Rightarrow> results \<times> world) \<Rightarrow> txt_file list option \<Rightarrow> world
     \<Rightarrow> exn + results \<times> world" where
  "run_all_files step input_dir w =
     (case get_txt_files input_dir of
        Inl e \<Rightarrow> Inl e
      | Inr txt_files \<Rightarrow>
          if txt_files = [] then
            Inr (\<lparr>processed = 0, failed = 0, skipped = 0, total_files = 0\<rparr>, w)
          else
            Inr (files_loop step 1 (length txt_files) txt_files
                   (\<lparr>processed = 0, failed = 0, skipped = 0, total_files = length txt_files\<rparr>, w)))"

definition claude_process_all_files ::
  "block list service \<Rightarrow> txt_file list option \<Rightarrow> string \<Rightarrow> real \<Rightarrow> real \<Rightarrow> int \<Rightarrow> world
     \<Rightarrow> exn + results \<times> world" where
  "claude_process_all_files client input_dir prompt delay rate_limit_delay max_retries w =
     run_all_files (claude_process_file client prompt delay rate_limit_delay max_retries) input_dir w"

definition gemini_process_all_files ::
  "string option service \<Rightarrow> txt_file list option \<Rightarrow> string \<Rightarrow> real \<Rightarrow> real \<Rightarrow> int \<Rightarrow> world
     \<Rightarrow> exn + results \<times> world" where
  "gemini_process_all_files client input_dir prompt delay rate_limit_delay max_retries w =
     run_all_files (gemini_process_file client prompt delay rate_limit_delay max_retries) input_dir w"

text \<open>
  \<open>main\<close>: the configuration constants of the script are the fields of \<open>config\<close>;
  \<open>env_api_key\<close> is the environment variable. The result is the exit status of the
  process and, when \<open>process_all_files\<close> returned, its counters.
\<close>

record config =
  API_KEY :: string
  env_api_key :: "string option"
  PROMPT_FILE :: "string option"
  INPUT_FOLDER :: "txt_file list option"
  DELAY_BETWEEN_CALLS :: real
  RATE_LIMIT_RETRY_DELAY :: real
  MAX_RETRIES :: int

definition truthy :: "string option \<Rightarrow> bool" where
  "truthy v = (case v of None \<Rightarrow> False | Some s \<Rightarrow> s \<noteq> [])"

definition finish_main :: "exn + results \<times> world \<Rightarrow> nat \<times> results option" where
  "finish_main r =
     (case r of
        Inl e \<Rightarrow> (1, None)
      | Inr (res, w) \<Rightarrow> (if 0 < failed res then (1, Some res) else (0, Some res)))"

definition claude_main :: "config \<Rightarrow> block list service \<Rightarrow> world \<Rightarrow> nat \<times> results option" where
  "claude_main cfg client w =
     (let api_key = (if API_KEY cfg \<noteq> ''your-anthropic-api-key-here'' then Some (API_KEY cfg) else None);
          api_key = (if truthy api_key then api_key else env_api_key cfg)
      in if \<not> truthy api_key then (1, None)
         else
           (case load_prompt_file (PROMPT_FILE cfg) of
              Inl e \<Rightarrow> (1, None)
            | Inr prompt \<Rightarrow>
                finish_main
                  (claude_process_all_files client (INPUT_FOLDER cfg) prompt (DELAY_BETWEEN_CALLS cfg)
                     (RATE_LIMIT_RETRY_DELAY cfg) (MAX_RETRIES cfg) w)))"

definition gemini_main :: "config \<Rightarrow> string option service \<Rightarrow> world \<Rightarrow> nat \<times> results option" where
  "gemini_main cfg client w =
     (let api_key = (if truthy (Some (API_KEY cfg)) then Some (API_KEY cfg) else env_api_key cfg)
      in if \<not> truthy api_key then (1, None)
         else
           (case load_prompt_file (PROMPT_FILE cfg) of
              Inl e \<Rightarrow> (1, None)
            | Inr prompt \<Rightarrow>
                finish_main
                  (gemini_process_all_files client (INPUT_FOLDER cfg) prompt (DELAY_BETWEEN_CALLS cfg)
                     (RATE_LIMIT_RETRY_DELAY cfg) (MAX_RETRIES cfg) w)))"

section \<open>Notions the claims are stated with\<close>

text \<open>A path the four glob patterns of \<open>process_folder\<close> look for: at any depth, with a
  name that ends in \<open>.pdf\<close> or \<open>.PDF\<close>.\<close>

definition is_pdf :: "path \<Rightarrow> bool" where
  "is_pdf p = (p \<noteq> [] \<and> (endswith (path_name p) ''.pdf'' \<or> endswith (path_name p) ''.PDF''))"

text \<open>
  The order of names without regard to case, as the specification asks for it, written
  without \<open>str.lower\<close>: the capital letters of the code points below 256 and, place by
  place, the small letters they stand for; a name with every capital letter replaced by
  its small letter; the comparison of two names so replaced, code point by code point.
\<close>

definition capital_letters :: string where
  "capital_letters = ''ABCDEFGHIJKLMNOPQRSTUVWXYZ'' @ map char_of ([192..<215] @ [216..<223])"

definition small_letters :: string where
  "small_letters = ''abcdefghijklmnopqrstuvwxyz'' @ map char_of ([224..<247] @ [248..<255])"

definition ignore_case :: "string \<Rightarrow> string" where
  "ignore_case s = map (\<lambda>c. case map_of (zip capital_letters small_letters) c of
                               Some d \<Rightarrow> d | None \<Rightarrow> c) s"

definition le_ignoring_case :: "string \<Rightarrow> string \<Rightarrow> bool" where
  "le_ignoring_case a b = (ignore_case a \<le> ignore_case b)"

text \<open>
  The failure classes the specification names as retried: the rate-limit class, the
  overload status 529 and the connection class.
\<close>

definition transient :: "exn \<Rightarrow> bool" where
  "transient e = (case e of RateLimitError m \<Rightarrow> True | APIStatusError status_code m \<Rightarrow> status_code = 529
                  | APIConnectionError m \<Rightarrow> True | _ \<Rightarrow> False)"

text \<open>Exactly one of the three counters goes up by one; \<open>total\<close> stays.\<close>

definition one_counter :: "results \<Rightarrow> results \<Rightarrow> bool" where
  "one_counter res res' =
     (total_files res' = total_files res \<and>
      ((processed res' = processed res + 1 \<and> failed res' = failed res \<and> skipped res' = skipped res)
       \<or> (processed res' = processed res \<and> failed res' = failed res + 1 \<and> skipped res' = skipped res)
       \<or> (processed res' = processed res \<and> failed res' = failed res \<and> skipped res' = skipped res + 1)))"

definition settled :: "results \<Rightarrow> nat" where
  "settled res = processed res + failed res + skipped res"

text \<open>
  Example inputs. Surroundings in which nothing has happened yet, on a platform that
  accepts sleeps of up to 9e9 seconds, and the counters of a run of two files at its
  start. Services that always answer, always report a rate limit or always report that
  the model does not exist; two files with text and a blank one, whose white space
  includes the no-break space and the next-line control; a configuration
  whose input directory holds no \<open>.txt\<close> file; folders of PDF files, one with names whose
  order by code point is not their order without regard to case; a text with two number
  lines and one with two hyphenated line ends.
\<close>

definition w0 :: world where
  "w0 = \<lparr>out_files = Map.empty, calls = [], sleeps = [], sleep_max = 9000000000\<rparr>"

definition r0 :: results where
  "r0 = \<lparr>processed = 0, failed = 0, skipped = 0, total_files = 2\<rparr>"

definition answering_claude :: "block list service" where
  "answering_claude k msg = Inr [Block ''text'' ''# Notes'']"

definition answering_gemini :: "string option service" where
  "answering_gemini k msg = Inr (Some ''# Notes'')"

definition rate_limited :: "'r service" where
  "rate_limited k msg = Inl (RateLimitError ''429 rate limit exceeded'')"

definition model_not_found :: "'r service" where
  "model_not_found k msg = Inl (APIStatusError 404 ''404 NOT_FOUND. models/gemini-1.5-flash is not supported for generateContent'')"

definition file_a :: txt_file where
  "file_a = \<lparr>fname = ''a.txt'', read_text = Inr ''hello''\<rparr>"

definition file_b :: txt_file where
  "file_b = \<lparr>fname = ''b.txt'', read_text = Inr ''world''\<rparr>"

definition blank_file :: txt_file where
  "blank_file = \<lparr>fname = ''blank.txt'', read_text = Inr ([CHR 0xA0] @ '' '' @ [CHR 0x85, NL])\<rparr>"

definition example_config :: config where
  "example_config =
     \<lparr>API_KEY = ''key'', env_api_key = None, PROMPT_FILE = Some ''Summarise the text.'',
      INPUT_FOLDER = Some [\<lparr>fname = ''readme.md'', read_text = Inr ''notes''\<rparr>],
      DELAY_BETWEEN_CALLS = 2, RATE_LIMIT_RETRY_DELAY = 60, MAX_RETRIES = 5\<rparr>"

definition example_folder :: folder where
  "example_folder =
     \<lparr>entries = [[''B.pdf''], [''sub'', ''a.PDF''], [''notes.txt''], [''sub'', ''deep'', ''C.pdf''],
                 [CHR 0xC9 # ''b.pdf''], [''sub'', CHR 0xE9 # ''a.pdf'']],
      fitz_open = (\<lambda>p. Inr [])\<rparr>"

definition broken_folder :: folder where
  "broken_folder =
     \<lparr>entries = [[''a.pdf''], [''bad.pdf'']],
      fitz_open = (\<lambda>p. if p = [''bad.pdf''] then Inl (Exception ''cannot open broken document'')
                        else Inr [''Hello'', ''  '', ''World''])\<rparr>"

definition two_number_lines :: string where
  "two_number_lines = ''a'' @ [NL] @ ''1'' @ [NL] @ ''2'' @ [NL] @ ''b''"

definition chained_hyphens :: string where
  "chained_hyphens = ''a-'' @ [NL] @ ''b-'' @ [NL] @ ''c''"

section \<open>The batch loop\<close>

lemma ceil_step:
  fixes B m :: nat
  assumes "0 < B" "0 < m"
  shows "(m + B - 1) div B = Suc ((m - B + B - 1) div B)"
proof (cases "B \<le> m")
  case True
  then obtain d where d: "m = B + d" by (metis le_Suc_ex)
  have "m + B - 1 = B + (d + B - 1)"
    using d assms by arith
  then have "(m + B - 1) div B = (B + (d + B - 1)) div B"
    by simp
  also have "\<dots> = Suc ((d + B - 1) div B)"
    using assms by (subst div_add_self1) simp_all
  finally show ?thesis using d by simp
next
  case False
  have "m + B - 1 = B + (m - 1)"
    using assms by arith
  then have "(m + B - 1) div B = (B + (m - 1)) div B"
    by simp
  also have "\<dots> = Suc ((m - 1) div B)"
    using assms by (subst div_add_self1) simp_all
  also have "(m - 1) div B = 0" using False assms by simp
  finally show ?thesis using False assms by simp
qed

lemma batch_loop_concat:
  "0 < B \<Longrightarrow> concat (map papers (batch_loop num s B xs)) = drop s xs"
proof (induction num s B xs rule: batch_loop.induct)
  case (1 num s B xs)
  show ?case
  proof (cases "s < length xs")
    case True
    have "drop s xs = take B (drop s xs) @ drop (s + B) xs"
      by (metis append_take_drop_id drop_drop add.commute)
    then show ?thesis
      using 1 True by (subst batch_loop.simps) (simp add: Let_def)
  next
    case False
    then show ?thesis by (subst batch_loop.simps) simp
  qed
qed

lemma batch_loop_length:
  "0 < B \<Longrightarrow> length (batch_loop num s B xs) = (length xs - s + B - 1) div B"
proof (induction num s B xs rule: batch_loop.induct)
  case (1 num s B xs)
  show ?case
  proof (cases "s < length xs")
    case True
    have "length (batch_loop num s B xs) = Suc ((length xs - (s + B) + B - 1) div B)"
      using 1 True by (subst batch_loop.simps) (simp add: Let_def)
    also have "\<dots> = (length xs - s + B - 1) div B"
      using ceil_step[of B "length xs - s"] 1(2) True by simp
    finally show ?thesis .
  next
    case False
    then have "length xs - s = 0" by simp
    then have "(length xs - s + B - 1) div B = 0" using 1(2) by simp
    then show ?thesis using False by (subst batch_loop.simps) simp
  qed
qed

lemma batch_loop_nth:
  "0 < B \<Longrightarrow> k < length (batch_loop num s B xs) \<Longrightarrow>
     batch_loop num s B xs ! k =
       \<lparr>batch_num = num + k, first_paper = s + k * B + 1,
        last_paper = s + k * B + length (take B (drop (s + k * B) xs)),
        papers = take B (drop (s + k * B) xs)\<rparr>"
proof (induction num s B xs arbitrary: k rule: batch_loop.induct)
  case (1 num s B xs)
  show ?case
  proof (cases "s < length xs")
    case True
    have unfold: "batch_loop num s B xs =
        \<lparr>batch_num = num, first_paper = s + 1,
         last_paper = s + length (take B (drop s xs)), papers = take B (drop s xs)\<rparr>
        # batch_loop (num + 1) (s + B) B xs"
      using True 1(2) by (subst batch_loop.simps) (simp add: Let_def)
    show ?thesis
    proof (cases k)
      case 0
      then show ?thesis using unfold by simp
    next
      case (Suc j)
      then have "j < length (batch_loop (num + 1) (s + B) B xs)"
        using 1(3) unfold by simp
      from 1(1)[OF _ refl 1(2) this] True 1(2)
      have "batch_loop (num + 1) (s + B) B xs ! j =
         \<lparr>batch_num = num + 1 + j, first_paper = s + B + j * B + 1,
          last_paper = s + B + j * B + length (take B (drop (s + B + j * B) xs)),
          papers = take B (drop (s + B + j * B) xs)\<rparr>"
        by simp
      then show ?thesis using unfold Suc by (simp add: ac_simps)
    qed
  next
    case False
    then have "batch_loop num s B xs = []" by (subst batch_loop.simps) simp
    then show ?thesis using 1(3) by simp
  qed
qed

lemma batch_loop_ranges:
  "0 < B \<Longrightarrow> s \<le> length xs \<Longrightarrow>
     concat (map (\<lambda>b. [first_paper b..<Suc (last_paper b)]) (batch_loop num s B xs)) = [Suc s..<Suc (length xs)]"
proof (induction num s B xs rule: batch_loop.induct)
  case (1 num s B xs)
  let ?f = "\<lambda>b::'a batch. [first_paper b..<Suc (last_paper b)]"
  show ?case
  proof (cases "s < length xs")
    case True
    have bl: "batch_loop num s B xs =
        \<lparr>batch_num = num, first_paper = s + 1,
         last_paper = s + length (take B (drop s xs)), papers = take B (drop s xs)\<rparr>
        # batch_loop (num + 1) (s + B) B xs"
      using True 1(2) by (subst batch_loop.simps) (simp add: Let_def)
    have step: "concat (map ?f (batch_loop num s B xs)) =
        [Suc s..<Suc (s + min (length xs - s) B)] @ concat (map ?f (batch_loop (num + 1) (s + B) B xs))"
      by (subst bl) (simp del: upt_Suc)
    show ?thesis
    proof (cases "s + B \<le> length xs")
      case le: True
      obtain d where d: "length xs = s + B + d"
        using le by (metis le_Suc_ex)
      have "[Suc s..<Suc (s + B) + d] = [Suc s..<Suc (s + B)] @ [Suc (s + B)..<Suc (s + B) + d]"
        by (rule upt_add_eq_append) simp
      then have split: "[Suc s..<Suc (length xs)] = [Suc s..<Suc (s + B)] @ [Suc (s + B)..<Suc (length xs)]"
        using d by simp
      have m: "min (length xs - s) B = B" using le by simp
      have IH: "concat (map ?f (batch_loop (num + 1) (s + B) B xs)) = [Suc (s + B)..<Suc (length xs)]"
        using 1(1)[OF _ refl 1(2)] True 1(2) le by simp
      show ?thesis
        unfolding step m IH split ..
    next
      case gt: False
      then have e: "batch_loop (num + 1) (s + B) B xs = []"
        by (subst batch_loop.simps) simp
      have m: "s + min (length xs - s) B = length xs" using gt True by simp
      show ?thesis
        unfolding step m e by simp
    qed
  next
    case False
    then have "batch_loop num s B xs = []" by (subst batch_loop.simps) simp
    moreover have "s = length xs" using False 1(3) by simp
    ultimately show ?thesis by simp
  qed
qed

lemma ceiling_nat_div:
  fixes N B :: nat
  assumes "0 < B"
  shows "\<lceil>real N / real B\<rceil> = int ((N + B - 1) div B)"
proof -
  define q where "q = (N + B - 1) div B"
  have q1: "q * B \<le> N + B - 1"
    unfolding q_def by simp
  have q2: "N + B - 1 < B + q * B"
    unfolding q_def using assms by (rule dividend_less_div_times)
  have up: "N \<le> q * B" using q2 assms by simp
  have lo: "q * B < N + B" using q1 assms by simp
  have "real N \<le> real q * real B"
    using up by (metis of_nat_le_iff of_nat_mult)
  then have a: "real N / real B \<le> real q"
    using assms by (simp add: pos_divide_le_eq)
  have "real q * real B < real N + real B"
    using lo by (metis of_nat_less_iff of_nat_mult of_nat_add)
  then have "(real q - 1) * real B < real N"
    by (simp add: algebra_simps)
  then have b: "real q - 1 < real N / real B"
    using assms by (simp add: pos_less_divide_eq)
  have "\<lceil>real N / real B\<rceil> = int q"
    using a b by (simp add: ceiling_eq_iff)
  then show ?thesis by (simp add: q_def)
qed


text \<open>
  Claim C3. For every list \<open>all_texts\<close> of successfully extracted units and every batch
  size of at least one, the batch loop produces \<open>ceil(N / B)\<close> batches; every batch but
  possibly the last holds exactly \<open>B\<close> units, no batch is empty, batch \<open>k\<close> (counted from
  zero) is the contiguous slice of \<open>B\<close> units that starts at position \<open>k * B\<close>, numbered
  \<open>k + 1\<close>, and carries the range \<open>k * B + 1\<close> to \<open>k * B + len(batch)\<close>; the batches
  concatenated give \<open>all_texts\<close> back, and their ranges concatenated are \<open>1..N\<close> without gap
  or overlap.
\<close>

theorem C3_batches:
  assumes "1 \<le> batch_size"
  shows "\<exists>bs. create_batches batch_size all_texts = Inr bs
           \<and> int (length bs) = \<lceil>real (length all_texts) / real_of_int batch_size\<rceil>
           \<and> (\<forall>k. Suc k < length bs \<longrightarrow> length (papers (bs ! k)) = nat batch_size)
           \<and> (\<forall>k < length bs.
                 papers (bs ! k) = take (nat batch_size) (drop (k * nat batch_size) all_texts)
                 \<and> papers (bs ! k) \<noteq> []
                 \<and> batch_num (bs ! k) = k + 1
                 \<and> first_paper (bs ! k) = k * nat batch_size + 1
                 \<and> last_paper (bs ! k) = k * nat batch_size + length (papers (bs ! k)))
           \<and> concat (map papers bs) = all_texts
           \<and> concat (map (\<lambda>b. [first_paper b..<Suc (last_paper b)]) bs) = [1..<Suc (length all_texts)]"
proof -
  define B where "B = nat batch_size"
  define N where "N = length all_texts"
  define bs where "bs = batch_loop 1 0 B all_texts"
  have B: "0 < B" using assms by (simp add: B_def)
  have cb: "create_batches batch_size all_texts = Inr bs"
    using assms by (simp add: create_batches_def bs_def B_def)
  have len: "length bs = (N + B - 1) div B"
    unfolding bs_def N_def using batch_loop_length[OF B, of 1 0 all_texts] by simp
  have "real_of_int batch_size = real B"
    using assms by (simp add: B_def)
  then have ceil: "int (length bs) = \<lceil>real (length all_texts) / real_of_int batch_size\<rceil>"
    using ceiling_nat_div[OF B, of N] len by (simp add: N_def)
  have q1: "length bs * B \<le> N + B - 1"
    unfolding len by simp
  have nth: "bs ! k = \<lparr>batch_num = 1 + k, first_paper = 0 + k * B + 1,
        last_paper = 0 + k * B + length (take B (drop (0 + k * B) all_texts)),
        papers = take B (drop (0 + k * B) all_texts)\<rparr>" if "k < length bs" for k
    using batch_loop_nth[OF B, of k 1 0 all_texts] that unfolding bs_def by simp
  have full: "length (papers (bs ! k)) = B" if "Suc k < length bs" for k
  proof -
    have "k + 2 \<le> length bs" using that by simp
    then have "(k + 2) * B \<le> length bs * B" by (rule mult_le_mono1)
    then have "(k + 2) * B \<le> N + B - 1" using q1 by linarith
    then have "k * B + B \<le> N" using B by (simp add: algebra_simps)
    then show ?thesis using nth[of k] that by (simp add: N_def)
  qed
  have nonempty: "papers (bs ! k) \<noteq> []" if "k < length bs" for k
  proof -
    have "k + 1 \<le> length bs" using that by simp
    then have "(k + 1) * B \<le> length bs * B" by (rule mult_le_mono1)
    then have "(k + 1) * B \<le> N + B - 1" using q1 by linarith
    then have "k * B < N" using B by (simp add: algebra_simps)
    then show ?thesis using nth[OF that] B by (simp add: N_def)
  qed
  have cat: "concat (map papers bs) = all_texts"
    unfolding bs_def using batch_loop_concat[OF B, of 1 0 all_texts] by simp
  have rng: "concat (map (\<lambda>b. [first_paper b..<Suc (last_paper b)]) bs) = [1..<Suc (length all_texts)]"
    unfolding bs_def using batch_loop_ranges[OF B, of 0 all_texts 1] by simp
  show ?thesis
    using cb ceil full nonempty cat rng nth unfolding B_def[symmetric] by (intro exI[of _ bs]) simp
qed

text \<open>Five units in batches of two.\<close>

theorem C3_batches_witness:
  "(1::int) \<le> 2 \<and>
   create_batches 2 [10, 20, 30, 40, 50 :: nat] =
     Inr [\<lparr>batch_num = 1, first_paper = 1, last_paper = 2, papers = [10, 20]\<rparr>,
          \<lparr>batch_num = 2, first_paper = 3, last_paper = 4, papers = [30, 40]\<rparr>,
          \<lparr>batch_num = 3, first_paper = 5, last_paper = 5, papers = [50]\<rparr>] \<and>
   (\<exists>bs. create_batches 2 [10, 20, 30, 40, 50 :: nat] = Inr bs \<and> int (length bs) = \<lceil>real 5 / 2\<rceil>
      \<and> concat (map papers bs) = [10, 20, 30, 40, 50])"
proof -
  have h: "(1::int) \<le> 2" by simp
  have e: "create_batches 2 [10, 20, 30, 40, 50 :: nat] =
     Inr [\<lparr>batch_num = 1, first_paper = 1, last_paper = 2, papers = [10, 20]\<rparr>,
          \<lparr>batch_num = 2, first_paper = 3, last_paper = 4, papers = [30, 40]\<rparr>,
          \<lparr>batch_num = 3, first_paper = 5, last_paper = 5, papers = [50]\<rparr>]"
    by (simp add: create_batches_def batch_loop.simps)
  from C3_batches[OF h, of "[10, 20, 30, 40, 50 :: nat]"]
  obtain bs where "create_batches 2 [10, 20, 30, 40, 50 :: nat] = Inr bs"
    and "int (length bs) = \<lceil>real (length [10, 20, 30, 40, 50 :: nat]) / real_of_int 2\<rceil>"
    and "concat (map papers bs) = [10, 20, 30, 40, 50]"
    by blast
  then show ?thesis using h e by simp
qed

section \<open>The enumeration of the PDF files\<close>

lemma unique_loop_props:
  "distinct acc \<Longrightarrow> set acc = seen \<Longrightarrow>
     distinct (unique_loop ps seen acc) \<and> set (unique_loop ps seen acc) = seen \<union> set ps"
  by (induction ps arbitrary: seen acc) auto

lemma distinct_count_one: "distinct xs \<Longrightarrow> x \<in> set xs \<Longrightarrow> count_list xs x = 1"
  by (induction xs) (auto simp: count_list_0_iff)

lemma glob_union:
  "set (glob_top es ''.pdf'' @ glob_top es ''.PDF'' @ glob_rec es ''.pdf'' @ glob_rec es ''.PDF'')
     = {p \<in> set es. is_pdf p}"
  unfolding glob_top_def glob_rec_def is_pdf_def by auto

text \<open>
  \<open>str.lower\<close> as modelled is the replacement of capital by small letters of the table,
  on every code point.
\<close>

lemma lower_char_table:
  "\<forall>c. lower_char c = (case map_of (zip capital_letters small_letters) c of Some d \<Rightarrow> d | None \<Rightarrow> c)"
  by code_simp

lemma lower_ignore_case: "lower s = ignore_case s"
  using lower_char_table by (simp add: lower_def ignore_case_def)

lemma sorted_ignoring_case:
  "sorted (map (\<lambda>x. lower (path_name x)) ps)
     = sorted_wrt (\<lambda>p q. le_ignoring_case (path_name p) (path_name q)) ps"
  by (simp add: sorted_map le_ignoring_case_def lower_ignore_case)

text \<open>
  Claim C7. For every existing root folder the enumeration either finds no matching file
  and exits with status 1, or returns a list that has no duplicate (every path in it
  occurs exactly once, whatever the number of patterns that found it), is sorted by the
  file name without regard to case (every name of the list is, capital letters taken for
  small ones, at most the names after it; this is the order of the key \<open>x.name.lower()\<close>),
  and holds exactly the matching paths of the folder, those of the top level and those of
  every subdirectory.
\<close>

theorem C7_enumerator:
  "(find_pdfs (Some f) = Inl 1 \<and> {p \<in> set (entries f). is_pdf p} = {}) \<or>
   (\<exists>pdfs. find_pdfs (Some f) = Inr pdfs
      \<and> distinct pdfs
      \<and> (\<forall>p \<in> set pdfs. count_list pdfs p = 1)
      \<and> sorted (map (\<lambda>x. lower (path_name x)) pdfs)
      \<and> sorted_wrt (\<lambda>p q. le_ignoring_case (path_name p) (path_name q)) pdfs
      \<and> set pdfs = {p \<in> set (entries f). is_pdf p})"
proof -
  define globbed where "globbed = glob_top (entries f) ''.pdf'' @ glob_top (entries f) ''.PDF''
      @ glob_rec (entries f) ''.pdf'' @ glob_rec (entries f) ''.PDF''"
  define uniq where "uniq = unique_loop globbed {} []"
  define pdfs where "pdfs = sort_key (\<lambda>x. lower (path_name x)) uniq"
  have u: "distinct uniq \<and> set uniq = {} \<union> set globbed"
    unfolding uniq_def by (rule unique_loop_props) simp_all
  have d: "distinct pdfs" using u by (simp add: pdfs_def)
  have s: "set pdfs = {p \<in> set (entries f). is_pdf p}"
    using u glob_union[of "entries f"] by (simp add: pdfs_def globbed_def)
  have o: "sorted (map (\<lambda>x. lower (path_name x)) pdfs)"
    unfolding pdfs_def by (rule sorted_sort_key)
  have o': "sorted_wrt (\<lambda>p q. le_ignoring_case (path_name p) (path_name q)) pdfs"
    using o by (simp only: sorted_ignoring_case)
  have c: "\<forall>p \<in> set pdfs. count_list pdfs p = 1"
    using d by (simp add: distinct_count_one)
  have r: "find_pdfs (Some f) = (if pdfs = [] then Inl 1 else Inr pdfs)"
    by (simp add: find_pdfs_def Let_def pdfs_def uniq_def globbed_def)
  show ?thesis
  proof (cases "pdfs = []")
    case True
    then show ?thesis using r s by auto
  next
    case False
    then show ?thesis using r d c o o' s by auto
  qed
qed

lemma example_folder_eval:
  "find_pdfs (Some example_folder) =
     Inr [[''sub'', ''a.PDF''], [''B.pdf''], [''sub'', ''deep'', ''C.pdf''],
          [''sub'', CHR 0xE9 # ''a.pdf''], [CHR 0xC9 # ''b.pdf'']]"
  by code_simp

lemma example_names_eval:
  "le_ignoring_case ''a.PDF'' ''B.pdf'' \<and> \<not> ''a.PDF'' \<le> ''B.pdf''
   \<and> le_ignoring_case (CHR 0xE9 # ''a.pdf'') (CHR 0xC9 # ''b.pdf'')
   \<and> \<not> CHR 0xE9 # ''a.pdf'' \<le> CHR 0xC9 # ''b.pdf''
   \<and> \<not> sorted (map path_name [[''sub'', ''a.PDF''], [''B.pdf''], [''sub'', ''deep'', ''C.pdf''],
          [''sub'', CHR 0xE9 # ''a.pdf''], [CHR 0xC9 # ''b.pdf'']])"
  by code_simp

text \<open>
  A folder with two PDF files at the top level and three in subdirectories, each found by
  two of the four patterns; the names in the order of their code points would be
  \<open>B.pdf\<close>, \<open>C.pdf\<close>, \<open>a.PDF\<close> and then the two names that start with the capital and the
  small accented letter, the capital one first.
\<close>

theorem C7_enumerator_witness:
  "find_pdfs (Some example_folder) =
     Inr [[''sub'', ''a.PDF''], [''B.pdf''], [''sub'', ''deep'', ''C.pdf''],
          [''sub'', CHR 0xE9 # ''a.pdf''], [CHR 0xC9 # ''b.pdf'']]
   \<and> distinct [[''sub'', ''a.PDF''], [''B.pdf''], [''sub'', ''deep'', ''C.pdf''],
          [''sub'', CHR 0xE9 # ''a.pdf''], [CHR 0xC9 # ''b.pdf'']]
   \<and> sorted_wrt (\<lambda>p q. le_ignoring_case (path_name p) (path_name q))
        [[''sub'', ''a.PDF''], [''B.pdf''], [''sub'', ''deep'', ''C.pdf''],
          [''sub'', CHR 0xE9 # ''a.pdf''], [CHR 0xC9 # ''b.pdf'']]
   \<and> le_ignoring_case ''a.PDF'' ''B.pdf'' \<and> \<not> ''a.PDF'' \<le> ''B.pdf''
   \<and> le_ignoring_case (CHR 0xE9 # ''a.pdf'') (CHR 0xC9 # ''b.pdf'')
   \<and> \<not> CHR 0xE9 # ''a.pdf'' \<le> CHR 0xC9 # ''b.pdf''
   \<and> \<not> sorted (map path_name [[''sub'', ''a.PDF''], [''B.pdf''], [''sub'', ''deep'', ''C.pdf''],
          [''sub'', CHR 0xE9 # ''a.pdf''], [CHR 0xC9 # ''b.pdf'']])
   \<and> {p \<in> set (entries example_folder). is_pdf p} =
        {[''sub'', ''a.PDF''], [''B.pdf''], [''sub'', ''deep'', ''C.pdf''],
          [''sub'', CHR 0xE9 # ''a.pdf''], [CHR 0xC9 # ''b.pdf'']}"
proof -
  let ?ps = "[[''sub'', ''a.PDF''], [''B.pdf''], [''sub'', ''deep'', ''C.pdf''],
          [''sub'', CHR 0xE9 # ''a.pdf''], [CHR 0xC9 # ''b.pdf'']]"
  from C7_enumerator[of example_folder] example_folder_eval
  have props: "distinct ?ps
      \<and> sorted_wrt (\<lambda>p q. le_ignoring_case (path_name p) (path_name q)) ?ps
      \<and> set ?ps = {p \<in> set (entries example_folder). is_pdf p}"
    by auto
  have "{p \<in> set (entries example_folder). is_pdf p} = set ?ps"
    using props by blast
  also have "\<dots> = {[''sub'', ''a.PDF''], [''B.pdf''], [''sub'', ''deep'', ''C.pdf''],
          [''sub'', CHR 0xE9 # ''a.pdf''], [CHR 0xC9 # ''b.pdf'']}"
    by auto
  finally have st: "{p \<in> set (entries example_folder). is_pdf p} =
        {[''sub'', ''a.PDF''], [''B.pdf''], [''sub'', ''deep'', ''C.pdf''],
          [''sub'', CHR 0xE9 # ''a.pdf''], [CHR 0xC9 # ''b.pdf'']}" .
  show ?thesis
    using example_folder_eval example_names_eval props st by blast
qed

section \<open>The status of an extraction\<close>

lemma record_extraction_eq:
  "record_extraction i pdf_name t (results, all_texts) =
     (results @ [\<lparr>filename = pdf_name, chars = length t, status = (if startswith t ''ERROR'' then Error else Success)\<rparr>],
      if startswith t ''ERROR'' then all_texts else all_texts @ [(i, pdf_name, t)])"
  by (simp add: record_extraction_def Let_def)

lemma extract_loop_eq:
  "extract_loop f i pdfs (results, all_texts) =
     (results @ map (\<lambda>p. \<lparr>filename = path_name p, chars = length (extract_pdf_text f p),
                           status = (if startswith (extract_pdf_text f p) ''ERROR'' then Error else Success)\<rparr>) pdfs,
      all_texts @ map (\<lambda>(k, p). (k, path_name p, extract_pdf_text f p))
                    (filter (\<lambda>(k, p). \<not> startswith (extract_pdf_text f p) ''ERROR'') (enumerate i pdfs)))"
  by (induction pdfs arbitrary: i results all_texts) (simp_all add: record_extraction_eq)

lemma extract_error_text:
  "fitz_open f p = Inl e \<Longrightarrow> extract_pdf_text f p = ''ERROR extracting '' @ path_str p @ '': '' @ str_exn e"
  by (simp add: extract_pdf_text_def)

lemma startswith_ERROR_append: "startswith (''ERROR extracting '' @ s) ''ERROR''"
  by (simp add: startswith_def)

text \<open>A successful extraction starts with a page tag or is empty, never with \<open>ERROR\<close>.\<close>

lemma fix_hd: "\<exists>r. fix_hyphenation (c # cs) = c # r"
  by (cases "(c # cs)" rule: fix_hyphenation.cases) auto
lemma strip_hd: "\<not> is_space c \<Longrightarrow> \<exists>r. strip (c # cs) = c # r"
proof -
  assume c: "\<not> is_space c"
  have "dropWhile is_space (rev (c # cs)) = dropWhile is_space (rev cs) @ [c]"
    using c by (simp add: dropWhile_append3)
  then show ?thesis using c by (simp add: strip_def)
qed

lemma clean_text_hd:
  assumes "c \<noteq> NL" "\<not> is_space c"
  shows "\<exists>r. clean_text (c # cs) = c # r"
proof -
  obtain r where "fix_hyphenation (c # strip_page_numbers (collapse_newlines cs)) = c # r"
    using fix_hd by blast
  then show ?thesis
    using assms strip_hd[OF assms(2)] by (simp add: clean_text_def)
qed

lemma text_parts_hd:
  "text_parts n pages = [] \<or> (\<exists>r. join [NL, NL] (text_parts n pages) = CHR ''['' # r)"
proof (induction pages arbitrary: n)
  case Nil
  show ?case by simp
next
  case (Cons t ts)
  show ?case
  proof (cases "strip t \<noteq> []")
    case True
    then show ?thesis by (cases "text_parts (n + 1) ts") auto
  next
    case False
    then show ?thesis using Cons[of "n + 1"] by simp
  qed
qed

lemma clean_text_Nil: "clean_text [] = []"
  by (simp add: clean_text_def strip_def)

lemma extract_success_not_error:
  assumes "fitz_open f p = Inr pages"
  shows "\<not> startswith (extract_pdf_text f p) ''ERROR''"
proof -
  have e: "extract_pdf_text f p = clean_text (join [NL, NL] (text_parts 1 pages))"
    using assms by (simp add: extract_pdf_text_def)
  from text_parts_hd[of 1 pages] show ?thesis
  proof
    assume "text_parts 1 pages = []"
    then show ?thesis using e by (simp add: clean_text_Nil startswith_def)
  next
    assume "\<exists>r. join [NL, NL] (text_parts 1 pages) = CHR ''['' # r"
    then obtain r where r: "join [NL, NL] (text_parts 1 pages) = CHR ''['' # r" by blast
    have "CHR ''['' \<noteq> NL" "\<not> is_space CHR ''[''"
      by (simp_all add: NL_def is_space_def)
    then obtain r' where "clean_text (CHR ''['' # r) = CHR ''['' # r'"
      using clean_text_hd by blast
    then show ?thesis using e r by (simp add: startswith_def)
  qed
qed

text \<open>
  Claim C10. The per-file step records the status error exactly when the text starts with
  \<open>ERROR\<close>, whatever produced the text, and appends the file to \<open>all_texts\<close> (the input of
  the batch loop) exactly when it does not; over the whole loop the statuses and
  \<open>all_texts\<close> are determined by that prefix test alone. A failure while reading the PDF
  is not raised: \<open>extract_pdf_text\<close> returns a text that starts with \<open>ERROR\<close>.
\<close>

theorem C10_status_by_prefix:
  "record_extraction i pdf_name t (results, all_texts) =
     (results @ [\<lparr>filename = pdf_name, chars = length t,
                  status = (if startswith t ''ERROR'' then Error else Success)\<rparr>],
      if startswith t ''ERROR'' then all_texts else all_texts @ [(i, pdf_name, t)])
   \<and> extract_loop f start pdfs (results, all_texts) =
     (results @ map (\<lambda>p. \<lparr>filename = path_name p, chars = length (extract_pdf_text f p),
                           status = (if startswith (extract_pdf_text f p) ''ERROR'' then Error else Success)\<rparr>) pdfs,
      all_texts @ map (\<lambda>(k, p). (k, path_name p, extract_pdf_text f p))
                    (filter (\<lambda>(k, p). \<not> startswith (extract_pdf_text f p) ''ERROR'') (enumerate start pdfs)))
   \<and> (\<forall>e. fitz_open f p = Inl e \<longrightarrow>
          extract_pdf_text f p = ''ERROR extracting '' @ path_str p @ '': '' @ str_exn e
          \<and> startswith (extract_pdf_text f p) ''ERROR'')"
  using record_extraction_eq[of i pdf_name t results all_texts]
    extract_loop_eq[of f start pdfs results all_texts]
    extract_error_text[of f p] startswith_ERROR_append
  by simp

lemma broken_folder_eval:
  "map status (fst (extract_loop broken_folder 1 [[''a.pdf''], [''bad.pdf'']] ([], []))) = [Success, Error]
   \<and> snd (extract_loop broken_folder 1 [[''a.pdf''], [''bad.pdf'']] ([], [])) =
       [(1, ''a.pdf'', ''[Page 1]'' @ [NL] @ ''Hello'' @ [NL, NL] @ ''[Page 3]'' @ [NL] @ ''World'')]
   \<and> extract_pdf_text broken_folder [''bad.pdf''] = ''ERROR extracting bad.pdf: cannot open broken document''"
  by code_simp

text \<open>
  A folder with one readable and one broken PDF, and a text that starts with \<open>ERROR\<close>
  without any exception behind it.
\<close>

theorem C10_status_by_prefix_witness:
  "record_extraction 2 ''x.pdf'' ''ERROR rates in surveys'' ([], []) =
     ([\<lparr>filename = ''x.pdf'', chars = 22, status = Error\<rparr>], [])
   \<and> map status (fst (extract_loop broken_folder 1 [[''a.pdf''], [''bad.pdf'']] ([], []))) = [Success, Error]
   \<and> snd (extract_loop broken_folder 1 [[''a.pdf''], [''bad.pdf'']] ([], [])) =
       [(1, ''a.pdf'', ''[Page 1]'' @ [NL] @ ''Hello'' @ [NL, NL] @ ''[Page 3]'' @ [NL] @ ''World'')]
   \<and> fitz_open broken_folder [''bad.pdf''] = Inl (Exception ''cannot open broken document'')
   \<and> extract_pdf_text broken_folder [''bad.pdf''] = ''ERROR extracting bad.pdf: cannot open broken document''
   \<and> startswith (extract_pdf_text broken_folder [''bad.pdf'']) ''ERROR''"
proof -
  note inst = C10_status_by_prefix[where i = 2 and pdf_name = "''x.pdf''" and t = "''ERROR rates in surveys''"
        and results = "[]" and all_texts = "[]" and f = broken_folder and start = 1
        and pdfs = "[[''a.pdf''], [''bad.pdf'']]" and p = "[''bad.pdf'']"]
  have open_bad: "fitz_open broken_folder [''bad.pdf''] = Inl (Exception ''cannot open broken document'')"
    by (simp add: broken_folder_def)
  have sw: "startswith ''ERROR rates in surveys'' ''ERROR''"
    by (simp add: startswith_def)
  have A: "record_extraction 2 ''x.pdf'' ''ERROR rates in surveys'' ([], []) =
     ([\<lparr>filename = ''x.pdf'', chars = 22, status = Error\<rparr>], [])"
    using conjunct1[OF inst] sw by simp
  have B: "startswith (extract_pdf_text broken_folder [''bad.pdf'']) ''ERROR''"
    using conjunct2[OF conjunct2[OF inst]] open_bad by blast
  show ?thesis
    using A B broken_folder_eval open_bad by blast
qed

section \<open>Repeating the extraction cleanup\<close>

lemma strip_fixed:
  fixes P :: "'a \<Rightarrow> bool"
  defines "u \<equiv> \<lambda>s. rev (dropWhile P (rev (dropWhile P s)))"
  shows "dropWhile P (u s) = u s"
proof (cases "u s = []")
  case True
  then show ?thesis by simp
next
  case False
  let ?a = "dropWhile P s"
  have split: "?a = u s @ rev (takeWhile P (rev ?a))"
    unfolding u_def by (metis rev_append rev_rev_ident takeWhile_dropWhile_id)
  with False have "hd ?a = hd (u s)"
    by (metis hd_append2)
  moreover have "?a \<noteq> []"
    using split False by (metis append_is_Nil_conv)
  ultimately have "\<not> P (hd (u s))"
    using hd_dropWhile[of P s] by simp
  then show ?thesis
    by (simp add: dropWhile_eq_self_iff)
qed

lemma strip_idem: "strip (strip s) = strip s"
proof -
  have a: "dropWhile is_space (strip s) = strip s"
    unfolding strip_def by (rule strip_fixed)
  have b: "dropWhile is_space (rev (strip s)) = rev (strip s)"
    unfolding strip_def by (simp add: dropWhile_idem)
  have "strip (strip s) = rev (dropWhile is_space (rev (dropWhile is_space (strip s))))"
    by (simp add: strip_def)
  also have "\<dots> = rev (rev (strip s))"
    by (simp only: a b)
  finally show ?thesis by simp
qed

lemma takeWhile_run: "ys = [] \<or> hd ys \<noteq> c \<Longrightarrow> takeWhile (\<lambda>x. x = c) (replicate k c @ ys) = replicate k c"
  by (induction k) (auto simp: takeWhile_eq_Nil_iff)

lemma dropWhile_run: "ys = [] \<or> hd ys \<noteq> c \<Longrightarrow> dropWhile (\<lambda>x. x = c) (replicate k c @ ys) = ys"
  by (induction k) (auto simp: dropWhile_eq_self_iff)

lemma collapse_run:
  assumes "ys = [] \<or> hd ys \<noteq> NL"
  shows "collapse_newlines (NL # replicate k NL @ ys) =
           (if 2 \<le> k then [NL, NL] else NL # replicate k NL) @ collapse_newlines ys"
  by (simp add: takeWhile_run[OF assms] dropWhile_run[OF assms] Let_def)

lemma collapse_head:
  "xs = [] \<or> hd xs \<noteq> NL \<Longrightarrow> collapse_newlines xs = [] \<or> hd (collapse_newlines xs) \<noteq> NL"
  by (cases xs) auto

lemma run_shape: "takeWhile (\<lambda>x. x = c) cs = replicate (length (takeWhile (\<lambda>x. x = c) cs)) c"
  by (induction cs) auto

lemma collapse_idem: "collapse_newlines (collapse_newlines s) = collapse_newlines s"
proof (induction s rule: collapse_newlines.induct)
  case 1
  show ?case by simp
next
  case (2 c cs)
  show ?case
  proof (cases "c = NL")
    case False
    with 2 show ?thesis by simp
  next
    case True
    define k where "k = length (takeWhile (\<lambda>x. x = NL) cs)"
    define rest where "rest = dropWhile (\<lambda>x. x = NL) cs"
    have run: "takeWhile (\<lambda>x. x = NL) cs = replicate k NL"
      unfolding k_def by (rule run_shape)
    have hd_rest: "rest = [] \<or> hd rest \<noteq> NL"
      unfolding rest_def using hd_dropWhile[of "\<lambda>x. x = NL" cs] by blast
    then have hd_out: "collapse_newlines rest = [] \<or> hd (collapse_newlines rest) \<noteq> NL"
      by (rule collapse_head)
    have IH: "collapse_newlines (collapse_newlines rest) = collapse_newlines rest"
      using 2(1)[OF True refl refl] unfolding rest_def .
    have out: "collapse_newlines (c # cs) =
        (if 2 \<le> k then [NL, NL] else NL # replicate k NL) @ collapse_newlines rest"
      using True run by (simp add: Let_def rest_def)
    have shape: "(if 2 \<le> k then [NL, NL] else NL # replicate k NL) = NL # replicate (min k 1) NL"
      by (cases k) (auto simp: min_def numeral_2_eq_2)
    have "collapse_newlines (NL # replicate (min k 1) NL @ collapse_newlines rest) =
        (NL # replicate (min k 1) NL) @ collapse_newlines (collapse_newlines rest)"
      using collapse_run[OF hd_out, of "min k 1"] by (simp add: min_def)
    then show ?thesis
      using out shape IH by simp
  qed
qed

lemma dropWhile_same_length:
  assumes "length (dropWhile P s) = length s"
  shows "dropWhile P s = s"
proof -
  have "length (takeWhile P s) + length (dropWhile P s) = length s"
    by (metis length_append takeWhile_dropWhile_id)
  then have "takeWhile P s = []" using assms by simp
  then show ?thesis by (metis append_Nil takeWhile_dropWhile_id)
qed

lemma collapse_shrinks:
  "collapse_newlines s = s \<or> length (collapse_newlines s) < length s"
proof (induction s rule: collapse_newlines.induct)
  case 1
  show ?case by simp
next
  case (2 c cs)
  show ?case
  proof (cases "c = NL")
    case False
    with 2 show ?thesis by auto
  next
    case True
    define tw where "tw = takeWhile (\<lambda>x. x = NL) cs"
    define rest where "rest = dropWhile (\<lambda>x. x = NL) cs"
    have cs: "cs = tw @ rest" by (simp add: tw_def rest_def)
    have out: "collapse_newlines (c # cs) =
        (if 3 \<le> length (c # tw) then [NL, NL] else c # tw) @ collapse_newlines rest"
      using True by (simp add: Let_def tw_def rest_def)
    have IH: "collapse_newlines rest = rest \<or> length (collapse_newlines rest) < length rest"
      using 2(1)[OF True refl refl] by (simp add: rest_def)
    show ?thesis
    proof (cases "3 \<le> length (c # tw)")
      case True
      then show ?thesis using out IH cs by auto
    next
      case False
      then show ?thesis using out IH cs by auto
    qed
  qed
qed

lemma spn_shrinks:
  "strip_page_numbers s = s \<or> length (strip_page_numbers s) < length s"
proof (induction s rule: strip_page_numbers.induct)
  case 1
  show ?case by simp
next
  case (2 c cs)
  define ds where "ds = takeWhile is_digit cs"
  define r1 where "r1 = dropWhile is_digit cs"
  define ws where "ws = takeWhile is_space r1"
  define r2 where "r2 = dropWhile is_space r1"
  show ?case
  proof (cases "c = NL \<and> ds \<noteq> [] \<and> NL \<in> set ws")
    case True
    have out: "strip_page_numbers (c # cs) = NL # strip_page_numbers (after_last_nl ws @ r2)"
      using True by (simp add: Let_def ds_def r1_def ws_def r2_def)
    have "strip_page_numbers (after_last_nl ws @ r2) = after_last_nl ws @ r2
        \<or> length (strip_page_numbers (after_last_nl ws @ r2)) < length (after_last_nl ws @ r2)"
      using 2(1)[OF _ refl refl refl refl] True unfolding ds_def r1_def ws_def r2_def by blast
    then have IH: "length (strip_page_numbers (after_last_nl ws @ r2)) \<le> length (after_last_nl ws @ r2)"
      by auto
    have a: "length (after_last_nl ws @ r2) \<le> length r1"
      unfolding ws_def r2_def by (rule length_ws_rest)
    have "length cs = length ds + length r1"
      unfolding ds_def r1_def by (metis length_append takeWhile_dropWhile_id)
    then have "length r1 < length cs" using True by simp
    then show ?thesis using out IH a by simp
  next
    case False
    then have out: "strip_page_numbers (c # cs) = c # strip_page_numbers cs"
      by (auto simp: Let_def ds_def r1_def ws_def r2_def)
    have "strip_page_numbers cs = cs \<or> length (strip_page_numbers cs) < length cs"
    proof (cases "c = NL")
      case True
      then show ?thesis using 2(2)[OF True refl refl refl refl] False
        by (simp add: ds_def r1_def ws_def)
    next
      case False
      then show ?thesis using 2(3) by simp
    qed
    then show ?thesis using out by auto
  qed
qed

lemma fix_shrinks:
  "fix_hyphenation s = s \<or> length (fix_hyphenation s) < length s"
  by (induction s rule: fix_hyphenation.induct) auto

lemma dropWhile_shrinks: "dropWhile P s = s \<or> length (dropWhile P s) < length s"
  using dropWhile_same_length[of P s] length_dropWhile_le[of P s] by linarith

lemma strip_shrinks: "strip s = s \<or> length (strip s) < length s"
proof -
  let ?a = "dropWhile is_space s"
  let ?b = "dropWhile is_space (rev ?a)"
  have s: "strip s = rev ?b" by (simp add: strip_def)
  have 1: "?a = s \<or> length ?a < length s" by (rule dropWhile_shrinks)
  have 2: "?b = rev ?a \<or> length ?b < length (rev ?a)" by (rule dropWhile_shrinks)
  show ?thesis
  proof (cases "?a = s \<and> ?b = rev ?a")
    case True
    from True have A: "?a = s" by (rule conjunct1)
    from True have B: "?b = rev ?a" by (rule conjunct2)
    have "rev ?b = rev (rev ?a)" by (rule arg_cong[OF B])
    also have "\<dots> = s" by (simp only: rev_rev_ident A)
    finally show ?thesis using s by simp
  next
    case False
    have "length ?a \<le> length s" "length ?b \<le> length ?a"
      using length_dropWhile_le[of is_space s] length_dropWhile_le[of is_space "rev ?a"] by simp_all
    moreover have "length ?a < length s \<or> length ?b < length ?a"
      using False 1 2 by auto
    ultimately have "length (rev ?b) < length s" by auto
    then show ?thesis using s by simp
  qed
qed

lemma clean_text_shrinks: "clean_text t = t \<or> length (clean_text t) < length t"
proof -
  define a where "a = collapse_newlines t"
  define b where "b = strip_page_numbers a"
  define c where "c = fix_hyphenation b"
  define d where "d = strip c"
  have 1: "a = t \<or> length a < length t" unfolding a_def by (rule collapse_shrinks)
  have 2: "b = a \<or> length b < length a" unfolding b_def by (rule spn_shrinks)
  have 3: "c = b \<or> length c < length b" unfolding c_def by (rule fix_shrinks)
  have 4: "d = c \<or> length d < length c" unfolding d_def by (rule strip_shrinks)
  have ct: "clean_text t = d" by (simp add: clean_text_def a_def b_def c_def d_def)
  show ?thesis
  proof (cases "a = t \<and> b = a \<and> c = b \<and> d = c")
    case True
    then show ?thesis using ct by simp
  next
    case False
    have "length a \<le> length t" "length b \<le> length a" "length c \<le> length b" "length d \<le> length c"
      using 1 2 3 4 by auto
    moreover have "length a < length t \<or> length b < length a \<or> length c < length b \<or> length d < length c"
      using False 1 2 3 4 by auto
    ultimately have "length d < length t" by linarith
    then show ?thesis using ct by simp
  qed
qed

lemma clean_text_stabilises:
  "\<exists>n \<le> length t. clean_text ((clean_text ^^ n) t) = (clean_text ^^ n) t"
proof (induction "length t" arbitrary: t rule: less_induct)
  case less
  show ?case
  proof (cases "clean_text t = t")
    case True
    then have "clean_text ((clean_text ^^ 0) t) = (clean_text ^^ 0) t" by simp
    then show ?thesis by blast
  next
    case False
    then have lt: "length (clean_text t) < length t"
      using clean_text_shrinks[of t] by simp
    from less[OF lt] obtain n where n: "n \<le> length (clean_text t)"
      "clean_text ((clean_text ^^ n) (clean_text t)) = (clean_text ^^ n) (clean_text t)"
      by blast
    have "(clean_text ^^ n) (clean_text t) = (clean_text ^^ Suc n) t"
      by (simp add: funpow_swap1)
    then have "clean_text ((clean_text ^^ Suc n) t) = (clean_text ^^ Suc n) t"
      using n(2) by simp
    moreover have "Suc n \<le> length t" using n(1) lt by simp
    ultimately show ?thesis by blast
  qed
qed

lemma clean_text_trimmed: "strip (clean_text t) = clean_text t"
  unfolding clean_text_def by (rule strip_idem)

text \<open>
  What does hold of repetition: the cleaned text is trimmed, the blank-line collapse and
  the trim are each idempotent, a cleanup that changes the text makes it strictly shorter,
  and so repeating the cleanup comes to a text it leaves as it is.
\<close>

lemma cleanup_comes_to_rest:
  "strip (clean_text t) = clean_text t
   \<and> collapse_newlines (collapse_newlines t) = collapse_newlines t
   \<and> strip (strip t) = strip t
   \<and> (clean_text t = t \<or> length (clean_text t) < length t)
   \<and> (\<exists>n \<le> length t. clean_text ((clean_text ^^ n) t) = (clean_text ^^ n) t)"
  using clean_text_trimmed collapse_idem strip_idem clean_text_shrinks clean_text_stabilises
  by blast

lemma two_number_lines_once: "clean_text two_number_lines = ''a'' @ [NL] @ ''2'' @ [NL] @ ''b''"
  by code_simp

lemma two_number_lines_twice: "clean_text (clean_text two_number_lines) = ''a'' @ [NL] @ ''b''"
  by code_simp

lemma chained_hyphens_once: "clean_text chained_hyphens = ''ab-'' @ [NL] @ ''c''"
  by code_simp

lemma chained_hyphens_twice: "clean_text (clean_text chained_hyphens) = ''abc''"
  by code_simp

text \<open>
  Claim C4. The cleanup is not idempotent, and where it is not, its first application
  leaves in the text what its own patterns are there to remove. On the four lines \<open>a\<close>,
  \<open>1\<close>, \<open>2\<close>, \<open>b\<close> the first cleanup removes the number line \<open>1\<close> and keeps the number line
  \<open>2\<close>, because the newline that ends the first match cannot start the next one; the
  second cleanup removes the line \<open>2\<close>. On the three lines \<open>a-\<close>, \<open>b-\<close>, \<open>c\<close> the first
  cleanup joins \<open>a\<close> and \<open>b\<close> and keeps the hyphenated line end after \<open>b\<close>, because \<open>b\<close> was
  taken by the first match; the second cleanup joins \<open>c\<close>.
\<close>

theorem C4_not_idempotent:
  "clean_text two_number_lines = ''a'' @ [NL] @ ''2'' @ [NL] @ ''b''
   \<and> clean_text (clean_text two_number_lines) = ''a'' @ [NL] @ ''b''
   \<and> clean_text (clean_text two_number_lines) \<noteq> clean_text two_number_lines
   \<and> clean_text chained_hyphens = ''ab-'' @ [NL] @ ''c''
   \<and> clean_text (clean_text chained_hyphens) = ''abc''
   \<and> clean_text (clean_text chained_hyphens) \<noteq> clean_text chained_hyphens"
  using two_number_lines_once two_number_lines_twice chained_hyphens_once chained_hyphens_twice
  by (simp add: NL_def)

section \<open>One file in a transform runner\<close>

lemma upto_first: "0 < (m::int) \<Longrightarrow> [0..m - 1] = 0 # [1..m - 1]"
  by (simp add: upto_rec1)

lemma stem_txt: "s \<noteq> [] \<Longrightarrow> stem (s @ ''.txt'') = s"
proof -
  assume s: "s \<noteq> []"
  have "takeWhile (\<lambda>c. c \<noteq> CHR ''.'') (rev (s @ ''.txt'')) = ''txt''"
    by simp
  then show ?thesis using s by (simp add: stem_def Let_def)
qed

lemma finish_file_written:
  assumes "(0 \<le> delay \<and> delay \<le> sleep_max w1) \<or> \<not> i < n"
  shows "finish_file delay i n out res (Inr (Some response, le), w1) =
     (res\<lparr>processed := processed res + 1\<rparr>,
      w1\<lparr>out_files := (out_files w1)(out \<mapsto> response),
         sleeps := sleeps w1 @ (if i < n then [delay] else [])\<rparr>)"
  using assms by (auto simp: finish_file_def time_sleep_def Let_def)

lemma claude_first_success:
  assumes "read_text f = Inr c" "strip c \<noteq> []" "0 < max_retries"
    and "client (length (calls w)) (full_message prompt c) = Inr content"
    and "(0 \<le> delay \<and> delay \<le> sleep_max w) \<or> \<not> i < n"
  shows "claude_process_file client prompt delay rate_limit_delay max_retries i n f (res, w) =
     (res\<lparr>processed := processed res + 1\<rparr>,
      w\<lparr>calls := calls w @ [full_message prompt c],
        out_files := (out_files w)(stem (fname f) @ ''.md'' \<mapsto>
           concat (map block_text (filter (\<lambda>b. block_type b = ''text'') content))),
        sleeps := sleeps w @ (if i < n then [delay] else [])\<rparr>)"
proof -
  let ?w1 = "w\<lparr>calls := calls w @ [full_message prompt c]\<rparr>"
  have loop: "claude_retry_loop client c prompt rate_limit_delay max_retries [0..max_retries - 1] None w =
      (Inr (Some (concat (map block_text (filter (\<lambda>b. block_type b = ''text'') content))), None), ?w1)"
    using assms(3,4) by (simp add: upto_first process_file_with_claude_def Let_def)
  have ok: "(0 \<le> delay \<and> delay \<le> sleep_max ?w1) \<or> \<not> i < n"
    using assms(5) by simp
  show ?thesis
    using assms(1,2) by (simp add: claude_process_file_def loop finish_file_written[OF ok])
qed

lemma gemini_first_success:
  assumes "read_text f = Inr c" "strip c \<noteq> []" "0 < max_retries"
    and "client (length (calls w)) (full_message prompt c) = Inr (Some response)"
    and "(0 \<le> delay \<and> delay \<le> sleep_max w) \<or> \<not> i < n"
  shows "gemini_process_file client prompt delay rate_limit_delay max_retries i n f (res, w) =
     (res\<lparr>processed := processed res + 1\<rparr>,
      w\<lparr>calls := calls w @ [full_message prompt c],
        out_files := (out_files w)(stem (fname f) @ ''.md'' \<mapsto> response),
        sleeps := sleeps w @ (if i < n then [delay] else [])\<rparr>)"
proof -
  let ?w1 = "w\<lparr>calls := calls w @ [full_message prompt c]\<rparr>"
  have loop: "gemini_retry_loop client c prompt rate_limit_delay max_retries [0..max_retries - 1] None w =
      (Inr (Some response, None), ?w1)"
    using assms(3,4) by (simp add: upto_first process_file_with_gemini_def Let_def)
  have ok: "(0 \<le> delay \<and> delay \<le> sleep_max ?w1) \<or> \<not> i < n"
    using assms(5) by simp
  show ?thesis
    using assms(1,2) by (simp add: gemini_process_file_def loop finish_file_written[OF ok])
qed

lemma skip_blank:
  assumes "read_text f = Inr c" "strip c = []"
  shows "claude_process_file client prompt delay rate_limit_delay max_retries i n f (res, w) =
           (res\<lparr>skipped := skipped res + 1\<rparr>, w)"
    and "gemini_process_file client' prompt delay rate_limit_delay max_retries i n f (res, w) =
           (res\<lparr>skipped := skipped res + 1\<rparr>, w)"
  using assms by (simp_all add: claude_process_file_def gemini_process_file_def)

lemma strip_empty_iff: "strip s = [] \<longleftrightarrow> (\<forall>c \<in> set s. is_space c)"
proof -
  have "strip s = [] \<longleftrightarrow> (\<forall>x \<in> set (dropWhile is_space s). is_space x)"
    by (simp add: strip_def dropWhile_eq_Nil_conv)
  also have "\<dots> \<longleftrightarrow> dropWhile is_space (dropWhile is_space s) = []"
    by (simp only: dropWhile_eq_Nil_conv)
  also have "\<dots> \<longleftrightarrow> dropWhile is_space s = []"
    by (simp only: dropWhile_idem)
  also have "\<dots> \<longleftrightarrow> (\<forall>c \<in> set s. is_space c)"
    by (simp only: dropWhile_eq_Nil_conv)
  finally show ?thesis .
qed

text \<open>A unit whose every call is answered by a rate limit.\<close>

lemma claude_limited_loop:
  assumes lim: "\<forall>k. \<exists>m. client k (full_message prompt c) = Inl (RateLimitError m)"
    and rld: "0 \<le> rate_limit_delay"
  shows "0 \<le> a \<Longrightarrow> a < max_retries \<Longrightarrow> nat (max_retries - a) = Suc n \<Longrightarrow>
     max_retries \<le> 1 \<or> rate_limit_delay * of_int (max_retries - 1) \<le> sleep_max w \<Longrightarrow>
     \<exists>e. claude_retry_loop client c prompt rate_limit_delay max_retries [a..max_retries - 1] le w =
       (Inl e, w\<lparr>calls := calls w @ replicate (nat (max_retries - a)) (full_message prompt c),
                 sleeps := sleeps w @ map (\<lambda>k. rate_limit_delay * of_int k) [a + 1..max_retries - 1]\<rparr>)"
proof (induction n arbitrary: a le w)
  case 0
  then have a: "a = max_retries - 1" by simp
  obtain m where m: "client (length (calls w)) (full_message prompt c) = Inl (RateLimitError m)"
    using lim by blast
  have "[a..max_retries - 1] = [a]" using a by simp
  then show ?case
    using m a by (simp add: process_file_with_claude_def Let_def)
next
  case (Suc n)
  then have lt: "a < max_retries - 1" by simp
  obtain m where m: "client (length (calls w)) (full_message prompt c) = Inl (RateLimitError m)"
    using lim by blast
  let ?w1 = "w\<lparr>calls := calls w @ [full_message prompt c]\<rparr>"
  let ?w2 = "?w1\<lparr>sleeps := sleeps ?w1 @ [rate_limit_delay * of_int (a + 1)]\<rparr>"
  have up: "[a..max_retries - 1] = a # [a + 1..max_retries - 1]"
    using lt by (simp add: upto_rec1)
  have nonneg: "\<not> rate_limit_delay * of_int (a + 1) < 0"
    using rld Suc.prems(1) by (simp add: mult_nonneg_nonneg not_less)
  have big: "rate_limit_delay * of_int (max_retries - 1) \<le> sleep_max w"
    using Suc.prems(1,4) lt by linarith
  have "(of_int (a + 1) :: real) \<le> of_int (max_retries - 1)"
    using lt by simp
  then have "rate_limit_delay * of_int (a + 1) \<le> rate_limit_delay * of_int (max_retries - 1)"
    using rld by (rule mult_left_mono)
  then have fits: "\<not> sleep_max ?w1 < rate_limit_delay * of_int (a + 1)"
    using big by simp
  have step: "claude_retry_loop client c prompt rate_limit_delay max_retries [a..max_retries - 1] le w =
      claude_retry_loop client c prompt rate_limit_delay max_retries [a + 1..max_retries - 1]
        (Some (RateLimitError m)) ?w2"
    unfolding up using m lt nonneg fits
    by (simp add: process_file_with_claude_def Let_def time_sleep_def)
  have n': "nat (max_retries - (a + 1)) = Suc n" using Suc.prems by simp
  have big': "max_retries \<le> 1 \<or> rate_limit_delay * of_int (max_retries - 1) \<le> sleep_max ?w2"
    using big by simp
  have a': "0 \<le> a + 1" "a + 1 < max_retries" using Suc.prems(1) lt by simp_all
  from Suc.IH[OF a' n' big', of "Some (RateLimitError m)"]
  obtain e where e: "claude_retry_loop client c prompt rate_limit_delay max_retries [a + 1..max_retries - 1]
        (Some (RateLimitError m)) ?w2 =
       (Inl e, ?w2\<lparr>calls := calls ?w2 @ replicate (nat (max_retries - (a + 1))) (full_message prompt c),
                 sleeps := sleeps ?w2 @ map (\<lambda>k. rate_limit_delay * of_int k) [a + 1 + 1..max_retries - 1]\<rparr>)"
    by auto
  have rep: "replicate (nat (max_retries - a)) (full_message prompt c) =
      full_message prompt c # replicate (nat (max_retries - (a + 1))) (full_message prompt c)"
    using lt by (metis Suc.prems(3) n' replicate_Suc)
  have ups: "[a + 1..max_retries - 1] = (a + 1) # [a + 1 + 1..max_retries - 1]"
    using lt by (simp add: upto_rec1)
  have weq: "?w2\<lparr>calls := calls ?w2 @ replicate (nat (max_retries - (a + 1))) (full_message prompt c),
                 sleeps := sleeps ?w2 @ map (\<lambda>k. rate_limit_delay * of_int k) [a + 1 + 1..max_retries - 1]\<rparr>
      = w\<lparr>calls := calls w @ replicate (nat (max_retries - a)) (full_message prompt c),
          sleeps := sleeps w @ map (\<lambda>k. rate_limit_delay * of_int k) [a + 1..max_retries - 1]\<rparr>"
    unfolding rep ups by simp
  have "claude_retry_loop client c prompt rate_limit_delay max_retries [a..max_retries - 1] le w =
       (Inl e, w\<lparr>calls := calls w @ replicate (nat (max_retries - a)) (full_message prompt c),
                 sleeps := sleeps w @ map (\<lambda>k. rate_limit_delay * of_int k) [a + 1..max_retries - 1]\<rparr>)"
    by (simp only: step e weq)
  then show ?case by blast
qed

lemma claude_always_limited:
  assumes "read_text f = Inr c" "strip c \<noteq> []"
    and lim: "\<forall>k. \<exists>m. client k (full_message prompt c) = Inl (RateLimitError m)"
    and rld: "0 \<le> rate_limit_delay"
    and big: "max_retries \<le> 1 \<or> rate_limit_delay * of_int (max_retries - 1) \<le> sleep_max w"
  shows "claude_process_file client prompt delay rate_limit_delay max_retries i n f (res, w) =
     (res\<lparr>failed := failed res + 1\<rparr>,
      w\<lparr>calls := calls w @ replicate (nat max_retries) (full_message prompt c),
        sleeps := sleeps w @ map (\<lambda>k. rate_limit_delay * of_int k) [1..max_retries - 1]\<rparr>)"
proof (cases "0 < max_retries")
  case True
  then obtain n where n: "nat (max_retries - 0) = Suc n"
    by (metis diff_zero not0_implies_Suc zero_less_nat_eq less_numeral_extra(3))
  from claude_limited_loop[where client = client and prompt = prompt and c = c
        and rate_limit_delay = rate_limit_delay and a = 0 and max_retries = max_retries
        and n = n and le = None and w = w, OF lim rld] True n big
  obtain e where "claude_retry_loop client c prompt rate_limit_delay max_retries [0..max_retries - 1] None w =
       (Inl e, w\<lparr>calls := calls w @ replicate (nat max_retries) (full_message prompt c),
                 sleeps := sleeps w @ map (\<lambda>k. rate_limit_delay * of_int k) [1..max_retries - 1]\<rparr>)"
    by auto
  then show ?thesis
    using assms(1,2) by (simp add: claude_process_file_def finish_file_def)
next
  case False
  then have "[0..max_retries - 1] = []" by simp
  then show ?thesis
    using assms(1,2) False by (simp add: claude_process_file_def finish_file_def)
qed

lemma gemini_limited_loop:
  assumes lim: "\<forall>k. \<exists>e. client k (full_message prompt c) = Inl e \<and> is_rate_limit e"
    and rld: "0 \<le> rate_limit_delay"
  shows "0 \<le> a \<Longrightarrow> a < max_retries \<Longrightarrow> nat (max_retries - a) = Suc n \<Longrightarrow>
     max_retries \<le> 1 \<or> rate_limit_delay * of_int (max_retries - 1) \<le> sleep_max w \<Longrightarrow>
     \<exists>e. gemini_retry_loop client c prompt rate_limit_delay max_retries [a..max_retries - 1] le w =
       (Inl e, w\<lparr>calls := calls w @ replicate (nat (max_retries - a)) (full_message prompt c),
                 sleeps := sleeps w @ map (\<lambda>k. rate_limit_delay * of_int k) [a + 1..max_retries - 1]\<rparr>)"
proof (induction n arbitrary: a le w)
  case 0
  then have a: "a = max_retries - 1" by simp
  obtain m where m: "client (length (calls w)) (full_message prompt c) = Inl m" "is_rate_limit m"
    using lim by blast
  have "[a..max_retries - 1] = [a]" using a by simp
  then show ?case
    using m a by (simp add: process_file_with_gemini_def Let_def)
next
  case (Suc n)
  then have lt: "a < max_retries - 1" by simp
  obtain m where m: "client (length (calls w)) (full_message prompt c) = Inl m" "is_rate_limit m"
    using lim by blast
  let ?w1 = "w\<lparr>calls := calls w @ [full_message prompt c]\<rparr>"
  let ?w2 = "?w1\<lparr>sleeps := sleeps ?w1 @ [rate_limit_delay * of_int (a + 1)]\<rparr>"
  have up: "[a..max_retries - 1] = a # [a + 1..max_retries - 1]"
    using lt by (simp add: upto_rec1)
  have nonneg: "\<not> rate_limit_delay * of_int (a + 1) < 0"
    using rld Suc.prems(1) by (simp add: mult_nonneg_nonneg not_less)
  have big: "rate_limit_delay * of_int (max_retries - 1) \<le> sleep_max w"
    using Suc.prems(1,4) lt by linarith
  have "(of_int (a + 1) :: real) \<le> of_int (max_retries - 1)"
    using lt by simp
  then have "rate_limit_delay * of_int (a + 1) \<le> rate_limit_delay * of_int (max_retries - 1)"
    using rld by (rule mult_left_mono)
  then have fits: "\<not> sleep_max ?w1 < rate_limit_delay * of_int (a + 1)"
    using big by simp
  have step: "gemini_retry_loop client c prompt rate_limit_delay max_retries [a..max_retries - 1] le w =
      gemini_retry_loop client c prompt rate_limit_delay max_retries [a + 1..max_retries - 1]
        (Some m) ?w2"
    unfolding up using m lt nonneg fits
    by (simp add: process_file_with_gemini_def Let_def time_sleep_def)
  have n': "nat (max_retries - (a + 1)) = Suc n" using Suc.prems by simp
  have big': "max_retries \<le> 1 \<or> rate_limit_delay * of_int (max_retries - 1) \<le> sleep_max ?w2"
    using big by simp
  have a': "0 \<le> a + 1" "a + 1 < max_retries" using Suc.prems(1) lt by simp_all
  from Suc.IH[OF a' n' big', of "Some m"]
  obtain e where e: "gemini_retry_loop client c prompt rate_limit_delay max_retries [a + 1..max_retries - 1]
        (Some m) ?w2 =
       (Inl e, ?w2\<lparr>calls := calls ?w2 @ replicate (nat (max_retries - (a + 1))) (full_message prompt c),
                 sleeps := sleeps ?w2 @ map (\<lambda>k. rate_limit_delay * of_int k) [a + 1 + 1..max_retries - 1]\<rparr>)"
    by auto
  have rep: "replicate (nat (max_retries - a)) (full_message prompt c) =
      full_message prompt c # replicate (nat (max_retries - (a + 1))) (full_message prompt c)"
    using lt by (metis Suc.prems(3) n' replicate_Suc)
  have ups: "[a + 1..max_retries - 1] = (a + 1) # [a + 1 + 1..max_retries - 1]"
    using lt by (simp add: upto_rec1)
  have weq: "?w2\<lparr>calls := calls ?w2 @ replicate (nat (max_retries - (a + 1))) (full_message prompt c),
                 sleeps := sleeps ?w2 @ map (\<lambda>k. rate_limit_delay * of_int k) [a + 1 + 1..max_retries - 1]\<rparr>
      = w\<lparr>calls := calls w @ replicate (nat (max_retries - a)) (full_message prompt c),
          sleeps := sleeps w @ map (\<lambda>k. rate_limit_delay * of_int k) [a + 1..max_retries - 1]\<rparr>"
    unfolding rep ups by simp
  have "gemini_retry_loop client c prompt rate_limit_delay max_retries [a..max_retries - 1] le w =
       (Inl e, w\<lparr>calls := calls w @ replicate (nat (max_retries - a)) (full_message prompt c),
                 sleeps := sleeps w @ map (\<lambda>k. rate_limit_delay * of_int k) [a + 1..max_retries - 1]\<rparr>)"
    by (simp only: step e weq)
  then show ?case by blast
qed

lemma gemini_always_limited:
  assumes "read_text f = Inr c" "strip c \<noteq> []"
    and lim: "\<forall>k. \<exists>e. client k (full_message prompt c) = Inl e \<and> is_rate_limit e"
    and rld: "0 \<le> rate_limit_delay"
    and big: "max_retries \<le> 1 \<or> rate_limit_delay * of_int (max_retries - 1) \<le> sleep_max w"
  shows "gemini_process_file client prompt delay rate_limit_delay max_retries i n f (res, w) =
     (res\<lparr>failed := failed res + 1\<rparr>,
      w\<lparr>calls := calls w @ replicate (nat max_retries) (full_message prompt c),
        sleeps := sleeps w @ map (\<lambda>k. rate_limit_delay * of_int k) [1..max_retries - 1]\<rparr>)"
proof (cases "0 < max_retries")
  case True
  then obtain n where n: "nat (max_retries - 0) = Suc n"
    by (metis diff_zero not0_implies_Suc zero_less_nat_eq less_numeral_extra(3))
  from gemini_limited_loop[where client = client and prompt = prompt and c = c
        and rate_limit_delay = rate_limit_delay and a = 0 and max_retries = max_retries
        and n = n and le = None and w = w, OF lim rld] True n big
  obtain e where "gemini_retry_loop client c prompt rate_limit_delay max_retries [0..max_retries - 1] None w =
       (Inl e, w\<lparr>calls := calls w @ replicate (nat max_retries) (full_message prompt c),
                 sleeps := sleeps w @ map (\<lambda>k. rate_limit_delay * of_int k) [1..max_retries - 1]\<rparr>)"
    by auto
  then show ?thesis
    using assms(1,2) by (simp add: gemini_process_file_def finish_file_def)
next
  case False
  then have "[0..max_retries - 1] = []" by simp
  then show ?thesis
    using assms(1,2) False by (simp add: gemini_process_file_def finish_file_def)
qed

lemma waits_increasing:
  fixes d :: real
  assumes "0 < d"
  shows "sorted_wrt (<) (map (\<lambda>k. d * of_int k) [a..b])"
proof -
  have "sorted_wrt (<) [a..b]" by simp
  then have "sorted_wrt (\<lambda>x y. d * of_int x < d * of_int y) [a..b]"
    by (rule sorted_wrt_mono_rel[rotated]) (use assms in simp)
  then show ?thesis by (simp add: sorted_wrt_map)
qed

lemma claude_no_retry_unless:
  assumes "\<not> (\<exists>e. client (length (calls w)) (full_message prompt c) = Inl e \<and> transient e
               \<and> attempt < max_retries - 1)"
  shows "snd (claude_retry_loop client c prompt rate_limit_delay max_retries (attempt # rest) le w) =
           w\<lparr>calls := calls w @ [full_message prompt c]\<rparr>"
proof (cases "client (length (calls w)) (full_message prompt c)")
  case (Inr content)
  then show ?thesis by (simp add: process_file_with_claude_def Let_def)
next
  case (Inl e)
  then show ?thesis using assms
    by (cases e) (auto simp: process_file_with_claude_def Let_def transient_def)
qed

lemma gemini_no_retry_unless:
  assumes "\<not> (\<exists>e. client (length (calls w)) (full_message prompt c) = Inl e \<and> is_rate_limit e
               \<and> attempt < max_retries - 1)"
  shows "snd (gemini_retry_loop client c prompt rate_limit_delay max_retries (attempt # rest) le w) =
           w\<lparr>calls := calls w @ [full_message prompt c]\<rparr>"
proof (cases "client (length (calls w)) (full_message prompt c)")
  case (Inr content)
  then show ?thesis by (simp add: process_file_with_gemini_def Let_def)
next
  case (Inl e)
  then show ?thesis using assms
    by (auto simp: process_file_with_gemini_def Let_def)
qed

lemma claude_fatal_at_once:
  assumes "read_text f = Inr c" "strip c \<noteq> []" "0 < max_retries"
    and "client (length (calls w)) (full_message prompt c) = Inl e" "\<not> transient e"
  shows "claude_process_file client prompt delay rate_limit_delay max_retries i n f (res, w) =
     (res\<lparr>failed := failed res + 1\<rparr>, w\<lparr>calls := calls w @ [full_message prompt c]\<rparr>)"
proof -
  have "claude_retry_loop client c prompt rate_limit_delay max_retries [0..max_retries - 1] None w =
      (Inl e, w\<lparr>calls := calls w @ [full_message prompt c]\<rparr>)"
    using assms(3,4,5) by (cases e) (simp_all add: upto_first process_file_with_claude_def Let_def transient_def)
  then show ?thesis
    using assms(1,2) by (simp add: claude_process_file_def finish_file_def)
qed

lemma gemini_fatal_at_once:
  assumes "read_text f = Inr c" "strip c \<noteq> []" "0 < max_retries"
    and "client (length (calls w)) (full_message prompt c) = Inl e" "\<not> is_rate_limit e"
  shows "gemini_process_file client prompt delay rate_limit_delay max_retries i n f (res, w) =
     (res\<lparr>failed := failed res + 1\<rparr>, w\<lparr>calls := calls w @ [full_message prompt c]\<rparr>)"
proof -
  have "gemini_retry_loop client c prompt rate_limit_delay max_retries [0..max_retries - 1] None w =
      (Inl e, w\<lparr>calls := calls w @ [full_message prompt c]\<rparr>)"
    using assms(3,4,5) by (simp add: upto_first process_file_with_gemini_def Let_def)
  then show ?thesis
    using assms(1,2) by (simp add: gemini_process_file_def finish_file_def)
qed

text \<open>The platform's limit stays what it is.\<close>

lemma time_sleep_sleep_max: "time_sleep secs w = Inr w' \<Longrightarrow> sleep_max w' = sleep_max w"
  by (auto simp: time_sleep_def split: if_splits)

lemma claude_call_sleep_max:
  "sleep_max (snd (process_file_with_claude client c prompt w)) = sleep_max w"
  by (simp add: process_file_with_claude_def Let_def split: sum.splits)

lemma gemini_call_sleep_max:
  "sleep_max (snd (process_file_with_gemini client c prompt w)) = sleep_max w"
  by (simp add: process_file_with_gemini_def Let_def split: sum.splits)

lemma claude_loop_sleep_max:
  "sleep_max (snd (claude_retry_loop client c prompt rate_limit_delay max_retries attempts le w)) = sleep_max w"
proof (induction attempts arbitrary: le w)
  case Nil
  show ?case by simp
next
  case (Cons attempt rest)
  obtain r w1 where call: "process_file_with_claude client c prompt w = (r, w1)"
    by (cases "process_file_with_claude client c prompt w")
  have w1: "sleep_max w1 = sleep_max w"
    using claude_call_sleep_max[of client c prompt w] call by simp
  have again: "sleep_max (snd (case time_sleep secs w1 of
        Inl e' \<Rightarrow> (Inl e', w1)
      | Inr w2 \<Rightarrow> claude_retry_loop client c prompt rate_limit_delay max_retries rest le' w2)) = sleep_max w"
    for secs le'
  proof (cases "time_sleep secs w1")
    case (Inl e')
    then show ?thesis using w1 by simp
  next
    case (Inr w2)
    then show ?thesis using w1 Cons[of le' w2] time_sleep_sleep_max[OF Inr] by simp
  qed
  show ?case
  proof (cases r)
    case (Inr response)
    then show ?thesis using call w1 by simp
  next
    case (Inl e)
    then show ?thesis using call w1 again by (cases e) simp_all
  qed
qed

lemma gemini_loop_sleep_max:
  "sleep_max (snd (gemini_retry_loop client c prompt rate_limit_delay max_retries attempts le w)) = sleep_max w"
proof (induction attempts arbitrary: le w)
  case Nil
  show ?case by simp
next
  case (Cons attempt rest)
  obtain r w1 where call: "process_file_with_gemini client c prompt w = (r, w1)"
    by (cases "process_file_with_gemini client c prompt w")
  have w1: "sleep_max w1 = sleep_max w"
    using gemini_call_sleep_max[of client c prompt w] call by simp
  have again: "sleep_max (snd (case time_sleep secs w1 of
        Inl e' \<Rightarrow> (Inl e', w1)
      | Inr w2 \<Rightarrow> gemini_retry_loop client c prompt rate_limit_delay max_retries rest le' w2)) = sleep_max w"
    for secs le'
  proof (cases "time_sleep secs w1")
    case (Inl e')
    then show ?thesis using w1 by simp
  next
    case (Inr w2)
    then show ?thesis using w1 Cons[of le' w2] time_sleep_sleep_max[OF Inr] by simp
  qed
  show ?case
  proof (cases r)
    case (Inr response)
    then show ?thesis using call w1 by simp
  next
    case (Inl e)
    then show ?thesis using call w1 again by simp
  qed
qed

lemma finish_file_sleep_max:
  "sleep_max (snd (finish_file delay i n out res outcome)) = sleep_max (snd outcome)"
proof (cases outcome)
  case (Pair x w1)
  show ?thesis
  proof (cases x)
    case (Inl e)
    then show ?thesis using Pair by (simp add: finish_file_def)
  next
    case (Inr p)
    then obtain r le where p: "p = (r, le)" by (cases p) auto
    show ?thesis
      using Pair Inr p
      by (cases r) (auto simp: finish_file_def time_sleep_def Let_def)
  qed
qed

lemma claude_file_sleep_max:
  "sleep_max (snd (claude_process_file client prompt delay rate_limit_delay max_retries i n f s)) = sleep_max (snd s)"
  by (cases "read_text f")
     (simp_all add: claude_process_file_def finish_file_sleep_max claude_loop_sleep_max)

lemma gemini_file_sleep_max:
  "sleep_max (snd (gemini_process_file client prompt delay rate_limit_delay max_retries i n f s)) = sleep_max (snd s)"
  by (cases "read_text f")
     (simp_all add: gemini_process_file_def finish_file_sleep_max gemini_loop_sleep_max)

text \<open>Counters.\<close>

lemma finish_file_one_counter:
  assumes "0 \<le> delay" and "delay \<le> sleep_max (snd outcome)"
  shows "one_counter res (fst (finish_file delay i n out res outcome))"
proof (cases outcome)
  case (Pair x w1)
  show ?thesis
  proof (cases x)
    case (Inl e)
    then show ?thesis using Pair by (simp add: finish_file_def one_counter_def)
  next
    case (Inr p)
    then obtain r le where p: "p = (r, le)" by (cases p) auto
    show ?thesis
      using Pair Inr p assms
      by (cases r) (simp_all add: finish_file_def one_counter_def time_sleep_def Let_def)
  qed
qed

lemma claude_one_counter:
  assumes "0 \<le> delay" and "delay \<le> sleep_max (snd s)"
  shows "one_counter (fst s) (fst (claude_process_file client prompt delay rate_limit_delay max_retries i n f s))"
proof (cases "read_text f")
  case (Inl e)
  then show ?thesis by (simp add: claude_process_file_def one_counter_def)
next
  case (Inr c)
  have "one_counter (fst s) (fst (finish_file delay i n out (fst s)
      (claude_retry_loop client c prompt rate_limit_delay max_retries atts None (snd s))))" for out atts
    by (rule finish_file_one_counter) (use assms in \<open>simp_all add: claude_loop_sleep_max\<close>)
  then show ?thesis
    using Inr by (cases "strip c = []") (simp_all add: claude_process_file_def one_counter_def)
qed

lemma gemini_one_counter:
  assumes "0 \<le> delay" and "delay \<le> sleep_max (snd s)"
  shows "one_counter (fst s) (fst (gemini_process_file client prompt delay rate_limit_delay max_retries i n f s))"
proof (cases "read_text f")
  case (Inl e)
  then show ?thesis by (simp add: gemini_process_file_def one_counter_def)
next
  case (Inr c)
  have "one_counter (fst s) (fst (finish_file delay i n out (fst s)
      (gemini_retry_loop client c prompt rate_limit_delay max_retries atts None (snd s))))" for out atts
    by (rule finish_file_one_counter) (use assms in \<open>simp_all add: gemini_loop_sleep_max\<close>)
  then show ?thesis
    using Inr by (cases "strip c = []") (simp_all add: gemini_process_file_def one_counter_def)
qed

lemma one_counter_settled: "one_counter res res' \<Longrightarrow> settled res' = settled res + 1 \<and> total_files res' = total_files res"
  by (auto simp: one_counter_def settled_def)

lemma files_loop_settled:
  assumes step: "\<And>i f s. d \<le> sleep_max (snd s) \<Longrightarrow>
      one_counter (fst s) (fst (step i n f s)) \<and> sleep_max (snd (step i n f s)) = sleep_max (snd s)"
  shows "d \<le> sleep_max (snd s) \<Longrightarrow>
         settled (fst (files_loop step i n fs s)) = settled (fst s) + length fs
         \<and> total_files (fst (files_loop step i n fs s)) = total_files (fst s)"
proof (induction fs arbitrary: i s)
  case Nil
  show ?case by simp
next
  case (Cons f fs)
  have one: "one_counter (fst s) (fst (step i n f s))"
    and keep: "sleep_max (snd (step i n f s)) = sleep_max (snd s)"
    using step[OF Cons.prems] by simp_all
  have "settled (fst (step i n f s)) = settled (fst s) + 1 \<and> total_files (fst (step i n f s)) = total_files (fst s)"
    using one by (rule one_counter_settled)
  moreover have "d \<le> sleep_max (snd (step i n f s))"
    using keep Cons.prems by simp
  ultimately show ?case using Cons.IH[of "step i n f s" "i + 1"] by simp
qed

lemma run_all_files_settled:
  assumes step: "\<And>i n f s. d \<le> sleep_max (snd s) \<Longrightarrow>
      one_counter (fst s) (fst (step i n f s)) \<and> sleep_max (snd (step i n f s)) = sleep_max (snd s)"
    and d: "d \<le> sleep_max w"
  shows "\<exists>r w'. run_all_files step (Some es) w = Inr (r, w')
           \<and> settled r = total_files r
           \<and> total_files r = length (filter (\<lambda>f. endswith (fname f) ''.txt'') es)"
proof -
  define fs where "fs = sort_key fname (filter (\<lambda>f. endswith (fname f) ''.txt'') es)"
  have g: "get_txt_files (Some es) = Inr fs" by (simp add: get_txt_files_def fs_def)
  have len: "length fs = length (filter (\<lambda>f. endswith (fname f) ''.txt'') es)"
    by (simp add: fs_def)
  show ?thesis
  proof (cases "fs = []")
    case True
    then show ?thesis using g len by (simp add: run_all_files_def settled_def)
  next
    case False
    let ?s0 = "(\<lparr>processed = 0, failed = 0, skipped = 0, total_files = length fs\<rparr>, w)"
    have "settled (fst (files_loop step 1 (length fs) fs ?s0)) = settled (fst ?s0) + length fs
         \<and> total_files (fst (files_loop step 1 (length fs) fs ?s0)) = total_files (fst ?s0)"
      by (rule files_loop_settled[where d = d]) (use step d in simp_all)
    then have "settled (fst (files_loop step 1 (length fs) fs ?s0)) = length fs
         \<and> total_files (fst (files_loop step 1 (length fs) fs ?s0)) = length fs"
      by (simp add: settled_def)
    then show ?thesis
      using g len False
      by (intro exI[of _ "fst (files_loop step 1 (length fs) fs ?s0)"]
               exI[of _ "snd (files_loop step 1 (length fs) fs ?s0)"])
         (simp add: run_all_files_def)
  qed
qed

text \<open>No input file.\<close>

lemma no_txt_files:
  assumes "\<forall>f \<in> set es. \<not> endswith (fname f) ''.txt''"
  shows "run_all_files step (Some es) w =
           Inr (\<lparr>processed = 0, failed = 0, skipped = 0, total_files = 0\<rparr>, w)"
proof -
  have "filter (\<lambda>f. endswith (fname f) ''.txt'') es = []"
    using assms by (simp add: filter_empty_conv)
  then show ?thesis by (simp add: run_all_files_def get_txt_files_def)
qed

lemma main_no_txt_files:
  assumes "INPUT_FOLDER cfg = Some es" "\<forall>f \<in> set es. \<not> endswith (fname f) ''.txt''"
    and "truthy (env_api_key cfg) \<or> (API_KEY cfg \<noteq> [] \<and> API_KEY cfg \<noteq> ''your-anthropic-api-key-here'')"
    and "PROMPT_FILE cfg = Some raw" "strip raw \<noteq> []"
  shows "claude_main cfg client w = (0, Some \<lparr>processed = 0, failed = 0, skipped = 0, total_files = 0\<rparr>)"
    and "gemini_main cfg client' w = (0, Some \<lparr>processed = 0, failed = 0, skipped = 0, total_files = 0\<rparr>)"
  using assms
  by (auto simp: claude_main_def gemini_main_def Let_def truthy_def load_prompt_file_def
      claude_process_all_files_def gemini_process_all_files_def no_txt_files finish_main_def)


section \<open>The claims about one file\<close>

text \<open>
  Claim C6. For a file that was read and whose text is empty after \<open>strip()\<close>, both runners
  increment \<open>skipped\<close> and nothing else: \<open>processed\<close> and \<open>failed\<close> keep their values, and the
  surroundings are the same as before, so no message was sent to the service, no file was
  written and no time was slept. Such a text consists of white space only.
\<close>

theorem C6_blank_unit_skipped:
  assumes "read_text f = Inr c" and "strip c = []"
  shows "claude_process_file client prompt delay rate_limit_delay max_retries i n f (res, w) =
           (res\<lparr>skipped := skipped res + 1\<rparr>, w)
         \<and> gemini_process_file client' prompt delay rate_limit_delay max_retries i n f (res, w) =
           (res\<lparr>skipped := skipped res + 1\<rparr>, w)
         \<and> (\<forall>x \<in> set c. is_space x)"
  using skip_blank[OF assms] assms(2) by (simp add: strip_empty_iff)

text \<open>
  A file of a no-break space, a blank, a next-line control and a newline, which
  \<open>strip()\<close> trims to the empty text.
\<close>

theorem C6_blank_unit_skipped_witness:
  "read_text blank_file = Inr ([CHR 0xA0] @ '' '' @ [CHR 0x85, NL])
   \<and> strip ([CHR 0xA0] @ '' '' @ [CHR 0x85, NL]) = []
   \<and> claude_process_file answering_claude ''p'' 2 60 5 1 2 blank_file (r0, w0) =
       (\<lparr>processed = 0, failed = 0, skipped = 1, total_files = 2\<rparr>, w0)
   \<and> gemini_process_file answering_gemini ''p'' 2 60 5 1 2 blank_file (r0, w0) =
       (\<lparr>processed = 0, failed = 0, skipped = 1, total_files = 2\<rparr>, w0)
   \<and> calls w0 = [] \<and> out_files w0 = Map.empty"
proof -
  have r: "read_text blank_file = Inr ([CHR 0xA0] @ '' '' @ [CHR 0x85, NL])"
    by (simp add: blank_file_def)
  have s: "strip ([CHR 0xA0] @ '' '' @ [CHR 0x85, NL]) = []" by code_simp
  have u: "r0\<lparr>skipped := skipped r0 + 1\<rparr> = \<lparr>processed = 0, failed = 0, skipped = 1, total_files = 2\<rparr>"
    by (simp add: r0_def)
  note inst = C6_blank_unit_skipped[where f = blank_file and c = "[CHR 0xA0] @ '' '' @ [CHR 0x85, NL]"
      and client = answering_claude and prompt = "''p''" and delay = 2 and rate_limit_delay = 60
      and max_retries = 5 and i = 1 and n = 2 and res = r0 and w = w0 and client' = answering_gemini,
      OF r s]
  have a: "claude_process_file answering_claude ''p'' 2 60 5 1 2 blank_file (r0, w0) =
       (\<lparr>processed = 0, failed = 0, skipped = 1, total_files = 2\<rparr>, w0)"
    using conjunct1[OF inst] u by simp
  have b: "gemini_process_file answering_gemini ''p'' 2 60 5 1 2 blank_file (r0, w0) =
       (\<lparr>processed = 0, failed = 0, skipped = 1, total_files = 2\<rparr>, w0)"
    using conjunct1[OF conjunct2[OF inst]] u by simp
  have w: "calls w0 = [] \<and> out_files w0 = Map.empty" by (simp add: w0_def)
  show ?thesis using r s a b w by blast
qed

text \<open>
  Claim C1 as stated fails for a \<open>delay\<close> that \<open>time.sleep\<close> refuses, a negative one or
  one beyond the platform's limit: the first of two files is answered at the first
  attempt, its output is written and \<open>processed\<close> is incremented, then \<open>time.sleep(delay)\<close>
  raises inside the \<open>try\<close> and the handler increments \<open>failed\<close> as well.
\<close>

theorem C1_refused_delay:
  "read_text file_a = Inr ''hello''
   \<and> answering_claude 0 (full_message ''p'' ''hello'') = Inr [Block ''text'' ''# Notes'']
   \<and> out_files (snd (claude_process_file answering_claude ''p'' (- 1) 60 5 1 2 file_a (r0, w0))) ''a.md''
       = Some ''# Notes''
   \<and> fst (claude_process_file answering_claude ''p'' (- 1) 60 5 1 2 file_a (r0, w0)) =
       \<lparr>processed = 1, failed = 1, skipped = 0, total_files = 2\<rparr>
   \<and> failed (fst (claude_process_file answering_claude ''p'' (- 1) 60 5 1 2 file_a (r0, w0))) \<noteq> failed r0
   \<and> sleep_max w0 < 10000000000
   \<and> fst (claude_process_file answering_claude ''p'' 10000000000 60 5 1 2 file_a (r0, w0)) =
       \<lparr>processed = 1, failed = 1, skipped = 0, total_files = 2\<rparr>
   \<and> fst (gemini_process_file answering_gemini ''p'' 10000000000 60 5 1 2 file_a (r0, w0)) =
       \<lparr>processed = 1, failed = 1, skipped = 0, total_files = 2\<rparr>"
  by code_simp

text \<open>
  Claim C1, amended. For a file that was read, is not blank and is answered at the first
  attempt (\<open>max_retries\<close> of at least one; for Gemini an answer with a text), and for a
  file that is the last one or a \<open>delay\<close> that \<open>time.sleep\<close> accepts, which is one that is
  not negative and not beyond the platform's limit: one message is sent, the one output
  file \<open>stem + ".md"\<close> holds the response text (for Claude the concatenation of the text
  blocks) and no other file changes, \<open>processed\<close> goes up by one, \<open>failed\<close> and \<open>skipped\<close>
  keep their values. For a name \<open>s.txt\<close> with \<open>s\<close> not empty the output name is \<open>s.md\<close>.
\<close>

theorem C1_first_attempt_success:
  assumes "read_text f = Inr c" and "strip c \<noteq> []" and "0 < max_retries"
    and "(0 \<le> delay \<and> delay \<le> sleep_max w) \<or> \<not> i < n"
    and "client (length (calls w)) (full_message prompt c) = Inr content"
    and "client' (length (calls w)) (full_message prompt c) = Inr (Some response)"
  shows "claude_process_file client prompt delay rate_limit_delay max_retries i n f (res, w) =
           (res\<lparr>processed := processed res + 1\<rparr>,
            w\<lparr>calls := calls w @ [full_message prompt c],
              out_files := (out_files w)(stem (fname f) @ ''.md'' \<mapsto>
                 concat (map block_text (filter (\<lambda>b. block_type b = ''text'') content))),
              sleeps := sleeps w @ (if i < n then [delay] else [])\<rparr>)
         \<and> gemini_process_file client' prompt delay rate_limit_delay max_retries i n f (res, w) =
           (res\<lparr>processed := processed res + 1\<rparr>,
            w\<lparr>calls := calls w @ [full_message prompt c],
              out_files := (out_files w)(stem (fname f) @ ''.md'' \<mapsto> response),
              sleeps := sleeps w @ (if i < n then [delay] else [])\<rparr>)
         \<and> (\<forall>s. s \<noteq> [] \<and> fname f = s @ ''.txt'' \<longrightarrow> stem (fname f) @ ''.md'' = s @ ''.md'')"
proof -
  note a = claude_first_success[where client = client and w = w and prompt = prompt and c = c
      and content = content and f = f and max_retries = max_retries and delay = delay and i = i and n = n,
      OF assms(1,2,3,5,4)]
  note b = gemini_first_success[where client = client' and w = w and prompt = prompt and c = c
      and response = response and f = f and max_retries = max_retries and delay = delay and i = i and n = n,
      OF assms(1,2,3,6,4)]
  show ?thesis
    using a b stem_txt by simp
qed

text \<open>The file \<open>a.txt\<close>, first of two, answered at once, with a delay of two seconds.\<close>

theorem C1_first_attempt_success_witness:
  "read_text file_a = Inr ''hello'' \<and> strip ''hello'' \<noteq> [] \<and> (0::int) < 5
   \<and> (0::real) \<le> 2 \<and> 2 \<le> sleep_max w0
   \<and> answering_claude (length (calls w0)) (full_message ''p'' ''hello'') = Inr [Block ''text'' ''# Notes'']
   \<and> answering_gemini (length (calls w0)) (full_message ''p'' ''hello'') = Inr (Some ''# Notes'')
   \<and> fst (claude_process_file answering_claude ''p'' 2 60 5 1 2 file_a (r0, w0)) =
        \<lparr>processed = 1, failed = 0, skipped = 0, total_files = 2\<rparr>
   \<and> out_files (snd (claude_process_file answering_claude ''p'' 2 60 5 1 2 file_a (r0, w0))) ''a.md''
        = Some ''# Notes''
   \<and> out_files (snd (claude_process_file answering_claude ''p'' 2 60 5 1 2 file_a (r0, w0))) ''b.md'' = None
   \<and> fst (gemini_process_file answering_gemini ''p'' 2 60 5 1 2 file_a (r0, w0)) =
        \<lparr>processed = 1, failed = 0, skipped = 0, total_files = 2\<rparr>
   \<and> out_files (snd (gemini_process_file answering_gemini ''p'' 2 60 5 1 2 file_a (r0, w0))) ''a.md''
        = Some ''# Notes''"
proof -
  have h1: "read_text file_a = Inr ''hello''" by (simp add: file_a_def)
  have h2: "strip ''hello'' \<noteq> []" by code_simp
  have h3: "(0::int) < 5" by simp
  have m: "(2::real) \<le> sleep_max w0" by (simp add: w0_def)
  then have h4: "((0::real) \<le> 2 \<and> 2 \<le> sleep_max w0) \<or> \<not> (1::nat) < 2" by simp
  have h5: "answering_claude (length (calls w0)) (full_message ''p'' ''hello'') = Inr [Block ''text'' ''# Notes'']"
    by (simp add: answering_claude_def)
  have h6: "answering_gemini (length (calls w0)) (full_message ''p'' ''hello'') = Inr (Some ''# Notes'')"
    by (simp add: answering_gemini_def)
  have st: "stem (fname file_a) @ ''.md'' = ''a.md''" by code_simp
  note inst = C1_first_attempt_success[where f = file_a and c = "''hello''" and max_retries = 5
      and delay = 2 and i = 1 and n = 2 and client = answering_claude and w = w0 and prompt = "''p''"
      and content = "[Block ''text'' ''# Notes'']" and client' = answering_gemini
      and response = "''# Notes''" and rate_limit_delay = 60 and res = r0,
      OF h1 h2 h3 h4 h5 h6]
  have a: "fst (claude_process_file answering_claude ''p'' 2 60 5 1 2 file_a (r0, w0)) =
        \<lparr>processed = 1, failed = 0, skipped = 0, total_files = 2\<rparr>"
    using conjunct1[OF inst] by (simp add: r0_def)
  have b: "out_files (snd (claude_process_file answering_claude ''p'' 2 60 5 1 2 file_a (r0, w0))) ''a.md''
        = Some ''# Notes''"
    using conjunct1[OF inst] st by simp
  have b': "out_files (snd (claude_process_file answering_claude ''p'' 2 60 5 1 2 file_a (r0, w0))) ''b.md'' = None"
    using conjunct1[OF inst] st by (simp add: w0_def)
  have c: "fst (gemini_process_file answering_gemini ''p'' 2 60 5 1 2 file_a (r0, w0)) =
        \<lparr>processed = 1, failed = 0, skipped = 0, total_files = 2\<rparr>"
    using conjunct1[OF conjunct2[OF inst]] by (simp add: r0_def)
  have d: "out_files (snd (gemini_process_file answering_gemini ''p'' 2 60 5 1 2 file_a (r0, w0))) ''a.md''
        = Some ''# Notes''"
    using conjunct1[OF conjunct2[OF inst]] st by simp
  show ?thesis using h1 h2 m h5 h6 a b b' c d by simp
qed

text \<open>
  Claim C2 as stated fails: with \<open>max_retries = 3\<close> and a service that always reports a
  rate limit the file is attempted three times, that is retried twice, with two waits;
  \<open>max_retries\<close> bounds the attempts, not the retries.
\<close>

theorem C2_three_attempts_two_waits:
  "(rate_limited :: block list service) 0 (full_message ''p'' ''hello'') =
     Inl (RateLimitError ''429 rate limit exceeded'')
   \<and> length (calls (snd (claude_process_file rate_limited ''p'' 2 60 3 1 2 file_a (r0, w0)))) = 3
   \<and> sleeps (snd (claude_process_file rate_limited ''p'' 2 60 3 1 2 file_a (r0, w0))) = [60, 120]
   \<and> length (sleeps (snd (claude_process_file rate_limited ''p'' 2 60 3 1 2 file_a (r0, w0)))) \<noteq> 3
   \<and> sleeps (snd (gemini_process_file rate_limited ''p'' 2 60 3 1 2 file_a (r0, w0))) = [60, 120]"
  by code_simp

text \<open>
  A wait that \<open>time.sleep\<close> refuses ends the attempts: with a base delay beyond the
  platform's limit the first wait raises, the file fails after one call and no wait is
  made.
\<close>

lemma wait_beyond_limit:
  "sleep_max w0 < 10000000000
   \<and> fst (claude_process_file rate_limited ''p'' 2 10000000000 3 1 2 file_a (r0, w0)) =
       \<lparr>processed = 0, failed = 1, skipped = 0, total_files = 2\<rparr>
   \<and> calls (snd (claude_process_file rate_limited ''p'' 2 10000000000 3 1 2 file_a (r0, w0))) =
       [full_message ''p'' ''hello'']
   \<and> sleeps (snd (claude_process_file rate_limited ''p'' 2 10000000000 3 1 2 file_a (r0, w0))) = []
   \<and> fst (gemini_process_file rate_limited ''p'' 2 10000000000 3 1 2 file_a (r0, w0)) =
       \<lparr>processed = 0, failed = 1, skipped = 0, total_files = 2\<rparr>
   \<and> calls (snd (gemini_process_file rate_limited ''p'' 2 10000000000 3 1 2 file_a (r0, w0))) =
       [full_message ''p'' ''hello'']
   \<and> sleeps (snd (gemini_process_file rate_limited ''p'' 2 10000000000 3 1 2 file_a (r0, w0))) = []"
  by code_simp

text \<open>
  Claim C2, amended. For a file that was read and is not blank, a service that answers
  every call with the rate-limit class (for Gemini: with a failure whose text the runner
  takes for a rate limit), and a base delay whose waits \<open>time.sleep\<close> accepts, which is a
  base delay that is not negative and whose longest wait, \<open>rate_limit_delay *
  (max_retries - 1)\<close>, is not beyond the platform's limit: the service is called exactly
  \<open>max_retries\<close> times (not at all when \<open>max_retries\<close> is zero or less), which is the first
  attempt and \<open>max_retries - 1\<close> retries; there are \<open>max_retries - 1\<close> waits, the wait before
  retry \<open>k\<close> is \<open>rate_limit_delay * k\<close>, and the waits are strictly increasing when the base
  delay is positive; \<open>failed\<close> goes up by one and no output file is written.
\<close>

theorem C2_always_rate_limited:
  assumes "read_text f = Inr c" and "strip c \<noteq> []" and "0 \<le> rate_limit_delay"
    and "max_retries \<le> 1 \<or> rate_limit_delay * of_int (max_retries - 1) \<le> sleep_max w"
    and "\<forall>k. \<exists>m. client k (full_message prompt c) = Inl (RateLimitError m)"
    and "\<forall>k. \<exists>e. client' k (full_message prompt c) = Inl e \<and> is_rate_limit e"
  shows "claude_process_file client prompt delay rate_limit_delay max_retries i n f (res, w) =
           (res\<lparr>failed := failed res + 1\<rparr>,
            w\<lparr>calls := calls w @ replicate (nat max_retries) (full_message prompt c),
              sleeps := sleeps w @ map (\<lambda>k. rate_limit_delay * of_int k) [1..max_retries - 1]\<rparr>)
         \<and> gemini_process_file client' prompt delay rate_limit_delay max_retries i n f (res, w) =
           (res\<lparr>failed := failed res + 1\<rparr>,
            w\<lparr>calls := calls w @ replicate (nat max_retries) (full_message prompt c),
              sleeps := sleeps w @ map (\<lambda>k. rate_limit_delay * of_int k) [1..max_retries - 1]\<rparr>)
         \<and> length (map (\<lambda>k. rate_limit_delay * of_int k) [1..max_retries - 1]) = nat (max_retries - 1)
         \<and> (0 < rate_limit_delay \<longrightarrow>
               sorted_wrt (<) (map (\<lambda>k. rate_limit_delay * of_int k) [1..max_retries - 1]))"
proof -
  note a = claude_always_limited[where client = client and prompt = prompt and c = c and f = f
      and rate_limit_delay = rate_limit_delay and max_retries = max_retries and w = w,
      OF assms(1,2,5,3,4)]
  note b = gemini_always_limited[where client = client' and prompt = prompt and c = c and f = f
      and rate_limit_delay = rate_limit_delay and max_retries = max_retries and w = w,
      OF assms(1,2,6,3,4)]
  show ?thesis
    using a b waits_increasing by simp
qed

text \<open>Three attempts with a base delay of 60 seconds.\<close>

theorem C2_always_rate_limited_witness:
  "read_text file_a = Inr ''hello'' \<and> strip ''hello'' \<noteq> [] \<and> (0::real) \<le> 60
   \<and> 60 * of_int (3 - 1) \<le> sleep_max w0
   \<and> is_rate_limit (RateLimitError ''429 rate limit exceeded'')
   \<and> claude_process_file rate_limited ''p'' 2 60 3 1 2 file_a (r0, w0) =
       (r0\<lparr>failed := failed r0 + 1\<rparr>,
        w0\<lparr>calls := calls w0 @ replicate 3 (full_message ''p'' ''hello''),
           sleeps := sleeps w0 @ [60, 120]\<rparr>)
   \<and> gemini_process_file rate_limited ''p'' 2 60 3 1 2 file_a (r0, w0) =
       (r0\<lparr>failed := failed r0 + 1\<rparr>,
        w0\<lparr>calls := calls w0 @ replicate 3 (full_message ''p'' ''hello''),
           sleeps := sleeps w0 @ [60, 120]\<rparr>)
   \<and> out_files (snd (claude_process_file rate_limited ''p'' 2 60 3 1 2 file_a (r0, w0))) = Map.empty
   \<and> sorted_wrt (<) [60, 120 :: real]"
proof -
  have h1: "read_text file_a = Inr ''hello''" by (simp add: file_a_def)
  have h2: "strip ''hello'' \<noteq> []" by code_simp
  have h3: "(0::real) \<le> 60" by simp
  have m: "60 * of_int (3 - 1) \<le> sleep_max w0" by (simp add: w0_def)
  then have hm: "(3::int) \<le> 1 \<or> 60 * of_int (3 - 1) \<le> sleep_max w0" by simp
  have rl: "is_rate_limit (RateLimitError ''429 rate limit exceeded'')" by code_simp
  have h4: "\<forall>k. \<exists>m. (rate_limited :: block list service) k (full_message ''p'' ''hello'') = Inl (RateLimitError m)"
    by (simp add: rate_limited_def)
  have h5: "\<forall>k. \<exists>e. (rate_limited :: string option service) k (full_message ''p'' ''hello'') = Inl e \<and> is_rate_limit e"
    using rl by (simp add: rate_limited_def)
  have up: "[1..(2::int)] = [1, 2]" by code_simp
  note inst = C2_always_rate_limited[where f = file_a and c = "''hello''" and rate_limit_delay = 60
      and client = rate_limited and prompt = "''p''" and client' = rate_limited and max_retries = 3
      and delay = 2 and i = 1 and n = 2 and res = r0 and w = w0, OF h1 h2 h3 hm h4 h5]
  have a: "claude_process_file rate_limited ''p'' 2 60 3 1 2 file_a (r0, w0) =
       (r0\<lparr>failed := failed r0 + 1\<rparr>,
        w0\<lparr>calls := calls w0 @ replicate 3 (full_message ''p'' ''hello''),
           sleeps := sleeps w0 @ [60, 120]\<rparr>)"
    using conjunct1[OF inst] by (simp add: up numeral_3_eq_3)
  have b: "gemini_process_file rate_limited ''p'' 2 60 3 1 2 file_a (r0, w0) =
       (r0\<lparr>failed := failed r0 + 1\<rparr>,
        w0\<lparr>calls := calls w0 @ replicate 3 (full_message ''p'' ''hello''),
           sleeps := sleeps w0 @ [60, 120]\<rparr>)"
    using conjunct1[OF conjunct2[OF inst]] by (simp add: up numeral_3_eq_3)
  have o: "out_files (snd (claude_process_file rate_limited ''p'' 2 60 3 1 2 file_a (r0, w0))) = Map.empty"
    unfolding a by (simp add: w0_def)
  have s: "sorted_wrt (<) [60, 120 :: real]" by simp
  show ?thesis using h1 h2 h3 m rl a b o s by blast
qed

text \<open>
  Claim C5. The Claude runner keeps to it: lemmas \<open>claude_no_retry_unless\<close> and
  \<open>claude_fatal_at_once\<close> above. The Gemini runner does not: it reads no status and no
  class, it looks into the text of the exception for \<open>429\<close>, \<open>quota\<close>, \<open>rate\<close> and
  \<open>resource\<close>. An error of status 404 whose text names \<open>generateContent\<close> contains \<open>rate\<close>,
  is taken for a rate limit and is retried with backoff, three calls and two waits, where
  the Claude runner stops after the first call; the comments of that code say
  \<open>Check for rate limiting\<close> and \<open>Non-rate-limit error, don't retry\<close>.
\<close>

theorem C5_gemini_retries_by_text:
  "(model_not_found :: string option service) 0 (full_message ''p'' ''hello'') =
     Inl (APIStatusError 404 ''404 NOT_FOUND. models/gemini-1.5-flash is not supported for generateContent'')
   \<and> \<not> transient (APIStatusError 404 ''404 NOT_FOUND. models/gemini-1.5-flash is not supported for generateContent'')
   \<and> sleeps (snd (gemini_process_file model_not_found ''p'' 1 30 3 1 2 file_a (r0, w0))) = [30, 60]
   \<and> length (calls (snd (gemini_process_file model_not_found ''p'' 1 30 3 1 2 file_a (r0, w0)))) = 3
   \<and> sleeps (snd (claude_process_file model_not_found ''p'' 1 30 3 1 2 file_a (r0, w0))) = []
   \<and> length (calls (snd (claude_process_file model_not_found ''p'' 1 30 3 1 2 file_a (r0, w0)))) = 1"
  by code_simp

section \<open>The claims about a whole run\<close>

text \<open>
  Claim C8 as stated fails for a \<open>delay\<close> that \<open>time.sleep\<close> refuses, a negative one or
  one beyond the platform's limit: of two answered files the first is counted as
  processed and, after \<open>time.sleep\<close> raised, as failed too, so the three counters add up
  to three for two files.
\<close>

theorem C8_refused_delay_counts_twice:
  "fst (projr (claude_process_all_files answering_claude (Some [file_a, file_b]) ''p'' (- 1) 60 5 w0)) =
     \<lparr>processed = 2, failed = 1, skipped = 0, total_files = 2\<rparr>
   \<and> fst (projr (gemini_process_all_files answering_gemini (Some [file_a, file_b]) ''p'' (- 1) 60 5 w0)) =
     \<lparr>processed = 2, failed = 1, skipped = 0, total_files = 2\<rparr>
   \<and> settled (fst (projr (claude_process_all_files answering_claude (Some [file_a, file_b]) ''p'' (- 1) 60 5 w0)))
       \<noteq> total_files (fst (projr (claude_process_all_files answering_claude (Some [file_a, file_b]) ''p'' (- 1) 60 5 w0)))
   \<and> sleep_max w0 < 10000000000
   \<and> fst (projr (claude_process_all_files answering_claude (Some [file_a, file_b]) ''p'' 10000000000 60 5 w0)) =
     \<lparr>processed = 2, failed = 1, skipped = 0, total_files = 2\<rparr>
   \<and> fst (projr (gemini_process_all_files answering_gemini (Some [file_a, file_b]) ''p'' 10000000000 60 5 w0)) =
     \<lparr>processed = 2, failed = 1, skipped = 0, total_files = 2\<rparr>"
  by code_simp

text \<open>
  Claim C8, amended. For a \<open>delay\<close> that \<open>time.sleep\<close> accepts, which is one that is not
  negative and not beyond the platform's limit, every iteration of the loop increments
  exactly one of \<open>processed\<close>, \<open>failed\<close> and \<open>skipped\<close>, whatever the service answers and
  whatever the retry settings are, and a run over an existing input directory returns
  counters with \<open>processed + failed + skipped = total\<close>, where \<open>total\<close> is the number of
  \<open>.txt\<close> files of the directory.
\<close>

theorem C8_counters_add_up:
  assumes "0 \<le> delay" and "delay \<le> sleep_max w"
  shows "one_counter res (fst (claude_process_file client prompt delay rate_limit_delay max_retries i n f (res, w)))
         \<and> one_counter res (fst (gemini_process_file client' prompt delay rate_limit_delay max_retries i n f (res, w)))
         \<and> (\<exists>r w'. claude_process_all_files client (Some es) prompt delay rate_limit_delay max_retries w = Inr (r, w')
               \<and> processed r + failed r + skipped r = total_files r
               \<and> total_files r = length (filter (\<lambda>f. endswith (fname f) ''.txt'') es))
         \<and> (\<exists>r w'. gemini_process_all_files client' (Some es) prompt delay rate_limit_delay max_retries w = Inr (r, w')
               \<and> processed r + failed r + skipped r = total_files r
               \<and> total_files r = length (filter (\<lambda>f. endswith (fname f) ''.txt'') es))"
proof -
  have c: "delay \<le> sleep_max (snd s) \<Longrightarrow>
      one_counter (fst s) (fst (claude_process_file client prompt delay rate_limit_delay max_retries i n f s))
      \<and> sleep_max (snd (claude_process_file client prompt delay rate_limit_delay max_retries i n f s))
          = sleep_max (snd s)" for i n f s
    using claude_one_counter[OF assms(1)] claude_file_sleep_max by blast
  have g: "delay \<le> sleep_max (snd s) \<Longrightarrow>
      one_counter (fst s) (fst (gemini_process_file client' prompt delay rate_limit_delay max_retries i n f s))
      \<and> sleep_max (snd (gemini_process_file client' prompt delay rate_limit_delay max_retries i n f s))
          = sleep_max (snd s)" for i n f s
    using gemini_one_counter[OF assms(1)] gemini_file_sleep_max by blast
  have c1: "one_counter res (fst (claude_process_file client prompt delay rate_limit_delay max_retries i n f (res, w)))"
    using c[of "(res, w)" i n f] assms(2) by simp
  have g1: "one_counter res (fst (gemini_process_file client' prompt delay rate_limit_delay max_retries i n f (res, w)))"
    using g[of "(res, w)" i n f] assms(2) by simp
  have rc: "\<exists>r w'. claude_process_all_files client (Some es) prompt delay rate_limit_delay max_retries w = Inr (r, w')
               \<and> settled r = total_files r
               \<and> total_files r = length (filter (\<lambda>f. endswith (fname f) ''.txt'') es)"
    unfolding claude_process_all_files_def
    by (rule run_all_files_settled[where d = delay]) (use c assms(2) in blast)+
  have rg: "\<exists>r w'. gemini_process_all_files client' (Some es) prompt delay rate_limit_delay max_retries w = Inr (r, w')
               \<and> settled r = total_files r
               \<and> total_files r = length (filter (\<lambda>f. endswith (fname f) ''.txt'') es)"
    unfolding gemini_process_all_files_def
    by (rule run_all_files_settled[where d = delay]) (use g assms(2) in blast)+
  show ?thesis
    using c1 g1 rc rg unfolding settled_def by blast
qed

lemma three_files_eval:
  "fst (projr (claude_process_all_files answering_claude (Some [file_a, blank_file, file_b]) ''p'' 2 60 5 w0)) =
     \<lparr>processed = 2, failed = 0, skipped = 1, total_files = 3\<rparr>
   \<and> fst (projr (gemini_process_all_files answering_gemini (Some [file_a, blank_file, file_b]) ''p'' 2 60 5 w0)) =
     \<lparr>processed = 2, failed = 0, skipped = 1, total_files = 3\<rparr>
   \<and> sleeps (snd (projr (claude_process_all_files answering_claude (Some [file_a, blank_file, file_b]) ''p'' 2 60 5 w0)))
       = [2, 2]
   \<and> length (filter (\<lambda>f. endswith (fname f) ''.txt'') [file_a, blank_file, file_b]) = 3"
  by code_simp

text \<open>Two answered files and a blank one, with a delay of two seconds.\<close>

theorem C8_counters_add_up_witness:
  "(0::real) \<le> 2 \<and> 2 \<le> sleep_max w0
   \<and> fst (projr (claude_process_all_files answering_claude (Some [file_a, blank_file, file_b]) ''p'' 2 60 5 w0)) =
     \<lparr>processed = 2, failed = 0, skipped = 1, total_files = 3\<rparr>
   \<and> fst (projr (gemini_process_all_files answering_gemini (Some [file_a, blank_file, file_b]) ''p'' 2 60 5 w0)) =
     \<lparr>processed = 2, failed = 0, skipped = 1, total_files = 3\<rparr>
   \<and> (\<exists>r w'. claude_process_all_files answering_claude (Some [file_a, blank_file, file_b]) ''p'' 2 60 5 w0 = Inr (r, w')
         \<and> processed r + failed r + skipped r = total_files r \<and> total_files r = 3)"
proof -
  have h: "(0::real) \<le> 2" by simp
  have m: "(2::real) \<le> sleep_max w0" by (simp add: w0_def)
  note inst = C8_counters_add_up[OF h m, where client = answering_claude and client' = answering_gemini
      and es = "[file_a, blank_file, file_b]" and prompt = "''p''" and rate_limit_delay = 60
      and max_retries = 5]
  have "\<exists>r w'. claude_process_all_files answering_claude (Some [file_a, blank_file, file_b]) ''p'' 2 60 5 w0 = Inr (r, w')
         \<and> processed r + failed r + skipped r = total_files r \<and> total_files r = 3"
    using conjunct1[OF conjunct2[OF conjunct2[OF inst]]] three_files_eval by simp
  then show ?thesis using h m three_files_eval by blast
qed

text \<open>
  Claim C9. When the input directory exists and holds no \<open>.txt\<close> file,
  \<open>process_all_files\<close> returns the four counters at zero without touching its surroundings,
  and with an API key and a non-empty prompt file \<open>main\<close> ends with exit status zero.
\<close>

theorem C9_no_input_files:
  assumes "INPUT_FOLDER cfg = Some es" and "\<forall>f \<in> set es. \<not> endswith (fname f) ''.txt''"
    and "truthy (env_api_key cfg) \<or> (API_KEY cfg \<noteq> [] \<and> API_KEY cfg \<noteq> ''your-anthropic-api-key-here'')"
    and "PROMPT_FILE cfg = Some raw" and "strip raw \<noteq> []"
  shows "claude_process_all_files client (Some es) prompt delay rate_limit_delay max_retries w =
           Inr (\<lparr>processed = 0, failed = 0, skipped = 0, total_files = 0\<rparr>, w)
         \<and> gemini_process_all_files client' (Some es) prompt delay rate_limit_delay max_retries w =
           Inr (\<lparr>processed = 0, failed = 0, skipped = 0, total_files = 0\<rparr>, w)
         \<and> claude_main cfg client w = (0, Some \<lparr>processed = 0, failed = 0, skipped = 0, total_files = 0\<rparr>)
         \<and> gemini_main cfg client' w = (0, Some \<lparr>processed = 0, failed = 0, skipped = 0, total_files = 0\<rparr>)"
  using no_txt_files[OF assms(2)] main_no_txt_files[OF assms]
  by (simp add: claude_process_all_files_def gemini_process_all_files_def)

text \<open>A directory that holds one Markdown file only.\<close>

theorem C9_no_input_files_witness:
  "INPUT_FOLDER example_config = Some [\<lparr>fname = ''readme.md'', read_text = Inr ''notes''\<rparr>]
   \<and> \<not> endswith ''readme.md'' ''.txt''
   \<and> API_KEY example_config = ''key''
   \<and> PROMPT_FILE example_config = Some ''Summarise the text.'' \<and> strip ''Summarise the text.'' \<noteq> []
   \<and> claude_main example_config answering_claude w0 =
        (0, Some \<lparr>processed = 0, failed = 0, skipped = 0, total_files = 0\<rparr>)
   \<and> gemini_main example_config answering_gemini w0 =
        (0, Some \<lparr>processed = 0, failed = 0, skipped = 0, total_files = 0\<rparr>)
   \<and> claude_process_all_files answering_claude (Some [\<lparr>fname = ''readme.md'', read_text = Inr ''notes''\<rparr>])
        ''Summarise the text.'' 2 60 5 w0 =
        Inr (\<lparr>processed = 0, failed = 0, skipped = 0, total_files = 0\<rparr>, w0)"
proof -
  have h1: "INPUT_FOLDER example_config = Some [\<lparr>fname = ''readme.md'', read_text = Inr ''notes''\<rparr>]"
    by (simp add: example_config_def)
  have e: "\<not> endswith ''readme.md'' ''.txt''" by code_simp
  then have h2: "\<forall>f \<in> set [\<lparr>fname = ''readme.md'', read_text = Inr ''notes''\<rparr>]. \<not> endswith (fname f) ''.txt''"
    by simp
  have k: "API_KEY example_config = ''key''" by (simp add: example_config_def)
  then have h3: "truthy (env_api_key example_config) \<or>
      (API_KEY example_config \<noteq> [] \<and> API_KEY example_config \<noteq> ''your-anthropic-api-key-here'')"
    by simp
  have h4: "PROMPT_FILE example_config = Some ''Summarise the text.''" by (simp add: example_config_def)
  have h5: "strip ''Summarise the text.'' \<noteq> []" by code_simp
  note inst = C9_no_input_files[OF h1 h2 h3 h4 h5, where client = answering_claude
      and client' = answering_gemini and w = w0 and prompt = "''Summarise the text.''"
      and delay = 2 and rate_limit_delay = 60 and max_retries = 5]
  show ?thesis using inst h1 e k h4 h5 by blast
qed

end
